theory Spec2Isabelle
  imports Complex_Main "HOL-Library.Word" "HOL-Library.AList"
begin

section \<open>Errors\<close>

text \<open>
  The Python exceptions that the modelled functions raise themselves, and any other
  exception (of the external collaborators) by its message.
  A function that can raise returns \<open>py_error + 'a\<close>, with \<open>Inl\<close> for the exception.
\<close>

datatype py_error =
  IndexError | ValueError | TypeError | KeyError | OperationalError | OtherException string

section \<open>Class selection: \<^verbatim>\<open>determine_cloud_class\<close>\<close>

text \<open>
  \<^verbatim>\<open>np.argmax\<close> along the class axis: the index of the first occurrence of the largest
  value. (On an empty axis numpy raises; the caller below checks for that before.)
\<close>

fun argmax :: "real list \<Rightarrow> nat" where
  "argmax [] = 0"
| "argmax [x] = 0"
| "argmax (x # y # ys) =
     (let k = argmax (y # ys) in if x < (y # ys) ! k then Suc k else 0)"

text \<open>
  The probability tensor is held with the class axis first and the other axes flattened:
  \<open>class_probs ! k ! i\<close> is the probability of class \<open>k\<close> at element \<open>i\<close>. Every step of
  the function is elementwise in the other axes, so their shape plays no role.

  \<^verbatim>\<open>
    types = np.zeros(shape, dtype="uint8")
    inds[axis] = 0
    cloud_mask = class_probs[tuple(inds)] < 0.638
    inds[axis] = slice(1, None)
    prob_types = np.argmax(class_probs[tuple(inds)], axis=axis).astype("uint8") + 1
    types[cloud_mask] = prob_types[cloud_mask]
    return types
  \<close>
  Indexing channel 0 of an empty class axis raises IndexError, and the argmax over an
  empty set of remaining channels raises ValueError. The result has dtype uint8, so the
  \<open>+ 1\<close> is an addition of 8-bit words.
\<close>

definition column :: "'a list list \<Rightarrow> nat \<Rightarrow> 'a list" where
  "column chans i = map (\<lambda>ch. ch ! i) chans"

definition determine_cloud_class :: "real list list \<Rightarrow> py_error + 8 word list" where
  "determine_cloud_class class_probs =
     (case class_probs of
        [] \<Rightarrow> Inl IndexError
      | no_cloud # others \<Rightarrow>
          if others = [] then Inl ValueError
          else
            let n = length no_cloud;
                types = replicate n (0 :: 8 word);
                cloud_mask = map (\<lambda>p. p < 638 / 1000) no_cloud;
                prob_types = map (\<lambda>i. (word_of_nat (argmax (column others i)) :: 8 word) + 1) [0..<n]
            in Inr (map (\<lambda>i. if cloud_mask ! i then prob_types ! i else types ! i) [0..<n]))"

section \<open>The vertical coordinate of the result dataset\<close>

text \<open>
  The levels \<^verbatim>\<open>np.arange(20) * 1e3 + 500.0\<close> that \<^verbatim>\<open>process_input\<close> assigns to
  \<^verbatim>\<open>results["altitude"]\<close>.
\<close>

definition altitude :: "real list" where
  "altitude = map (\<lambda>k. real k * 1000 + 500) [0..<20]"

section \<open>Deferred downloads: \<^verbatim>\<open>RemoteFile\<close>\<close>

text \<open>
  The file class (\<^verbatim>\<open>file_cls\<close>) belongs to the readers, which are external. All that
  \<^verbatim>\<open>RemoteFile\<close> uses of it is the static method \<^verbatim>\<open>download(filename, output_path)\<close>,
  which returns or raises, and the constructor \<^verbatim>\<open>file_cls(output_path)\<close>. A prefetch task
  is a future: \<^verbatim>\<open>result()\<close> returns or re-raises what the task raised.
  Every call of \<^verbatim>\<open>download\<close> is recorded in the list of download attempts.
\<close>

record file_cls =
  download :: "string \<Rightarrow> string \<Rightarrow> py_error option"

datatype local_file = LocalFile string

record remote_file =
  filename :: string
  working_dir :: "string option"
  prefetch_task :: "py_error option option"

definition path_join :: "string \<Rightarrow> string \<Rightarrow> string" where
  "path_join dir name = dir @ ''/'' @ name"

text \<open>
  \<^verbatim>\<open>
    def get(self, working_dir=None):
        if working_dir is None:
            working_dir = self.working_dir
        if working_dir is None:
            raise ValueError(...)
        output_path = Path(working_dir) / self.filename
        if self.prefetch_task is not None:
            self.prefetch_task.result()
            result = self.file_cls(output_path)
            return result
        self.file_cls.download(self.filename, output_path)
        return self.file_cls(output_path)
  \<close>
  The second component of the result is the list of download attempts made so far.
\<close>

definition get ::
  "file_cls \<Rightarrow> remote_file \<Rightarrow> string option \<Rightarrow> (string \<times> string) list
     \<Rightarrow> (py_error + local_file) \<times> (string \<times> string) list" where
  "get cls self working_dir_arg attempts =
     (let working_dir' = (case working_dir_arg of None \<Rightarrow> working_dir self | Some d \<Rightarrow> Some d)
      in case working_dir' of
           None \<Rightarrow> (Inl ValueError, attempts)
         | Some d \<Rightarrow>
             (let output_path = path_join d (filename self)
              in case prefetch_task self of
                   Some task \<Rightarrow>
                     (case task of
                        Some exc \<Rightarrow> (Inl exc, attempts)
                      | None \<Rightarrow> (Inr (LocalFile output_path), attempts))
                 | None \<Rightarrow>
                     (case download cls (filename self) output_path of
                        Some exc \<Rightarrow> (Inl exc, attempts @ [(filename self, output_path)])
                      | None \<Rightarrow>
                          (Inr (LocalFile output_path),
                           attempts @ [(filename self, output_path)]))))"

section \<open>The processing log: \<^verbatim>\<open>ProcessingLog\<close>\<close>

text \<open>
  A float is a number or not-a-number.
\<close>

datatype fl = NaN | Fl real

text \<open>
  One row of the table \<^verbatim>\<open>files\<close> (without its primary key \<^verbatim>\<open>name\<close>, which is the key
  of the table below), and the state of SQLite: the table of the database at each path
  (no entry: no database there; a database is taken to hold the table, as
  \<^verbatim>\<open>_init_db\<close> creates it), and the paths that \<^verbatim>\<open>sqlite3.connect\<close> was called with.
\<close>

record row =
  date :: nat
  success :: bool
  output_file :: string
  tiwp_min :: fl
  tiwp_max :: fl
  tiwp_mean :: fl
  n_missing :: int
  log :: string

type_synonym table = "string \<rightharpoonup> row"

record sqlite =
  databases :: "string \<rightharpoonup> table"
  connections :: "string list"

text \<open>
  The handler: its fields, and whether it is attached to the logger
  (\<^verbatim>\<open>addHandler\<close>, \<^verbatim>\<open>removeHandler\<close>).
\<close>

record processing_log =
  database_path :: "string option"
  input_file :: string
  buffer :: string
  attached :: bool

definition connect :: "string \<Rightarrow> sqlite \<Rightarrow> sqlite" where
  "connect path db = db\<lparr>connections := connections db @ [path]\<rparr>"

text \<open>
  \<^verbatim>\<open>_init_db\<close>: \<^verbatim>\<open>CREATE TABLE files(...)\<close>, which fails when the table exists.
\<close>

definition init_db :: "processing_log \<Rightarrow> sqlite \<Rightarrow> py_error option \<times> sqlite" where
  "init_db self db =
     (case database_path self of
        None \<Rightarrow> (None, db)
      | Some path \<Rightarrow>
          (let db' = connect path db
           in case databases db' path of
                Some _ \<Rightarrow> (Some OperationalError, db')
              | None \<Rightarrow> (None, db'\<lparr>databases := (databases db')(path \<mapsto> Map.empty)\<rparr>)))"

text \<open>
  \<^verbatim>\<open>_init_entry\<close>: insert the row of the input file unless there is one. \<open>now\<close> is the
  value of \<^verbatim>\<open>datetime.now()\<close>.
\<close>

definition new_row :: "nat \<Rightarrow> row" where
  "new_row now =
     \<lparr>date = now, success = False, output_file = [], tiwp_min = NaN, tiwp_max = NaN,
      tiwp_mean = NaN, n_missing = - 1, log = []\<rparr>"

definition init_entry :: "nat \<Rightarrow> processing_log \<Rightarrow> sqlite \<Rightarrow> py_error option \<times> sqlite" where
  "init_entry now self db =
     (case database_path self of
        None \<Rightarrow> (None, db)
      | Some path \<Rightarrow>
          (let db' = connect path db
           in case databases db' path of
                None \<Rightarrow> (Some OperationalError, db')
              | Some files \<Rightarrow>
                  (case files (input_file self) of
                     Some _ \<Rightarrow> (None, db')
                   | None \<Rightarrow>
                       (None, db'\<lparr>databases :=
                          (databases db')(path \<mapsto> files(input_file self \<mapsto> new_row now))\<rparr>))))"

text \<open>
  \<^verbatim>\<open>__init__\<close>: the database is created when there is a path and nothing exists there.
\<close>

definition init ::
  "nat \<Rightarrow> string option \<Rightarrow> string \<Rightarrow> sqlite \<Rightarrow> (py_error + processing_log) \<times> sqlite" where
  "init now database_path' input_file' db =
     (let self = \<lparr>database_path = database_path', input_file = input_file', buffer = [],
                  attached = False\<rparr>;
          (err, db1) =
            (case database_path self of
               None \<Rightarrow> (None, db)
             | Some path \<Rightarrow> if databases db path = None then init_db self db else (None, db))
      in case err of
           Some exc \<Rightarrow> (Inl exc, db1)
         | None \<Rightarrow>
             (case init_entry now self db1 of
                (Some exc, db2) \<Rightarrow> (Inl exc, db2)
              | (None, db2) \<Rightarrow> (Inr self, db2)))"

definition emit :: "string \<Rightarrow> processing_log \<Rightarrow> processing_log" where
  "emit message self = self\<lparr>buffer := buffer self @ message @ [CHR 0x0A]\<rparr>"

definition start_logging :: "processing_log \<Rightarrow> processing_log" where
  "start_logging self = self\<lparr>attached := True, buffer := []\<rparr>"

text \<open>
  \<^verbatim>\<open>
    def finish_logging(self, logger):
        logger.removeHandler(self)
        if self.database_path is None:
            return None
        with sqlite3.connect(self.database_path) as conn:
            cursor = conn.cursor()
            res = cursor.execute("SELECT log FROM files WHERE name=?", (self.input_file,))
            self.buffer.seek(0)
            log = res.fetchone()[0] + self.buffer.read().encode()
            res = cursor.execute("UPDATE files SET log=? WHERE name=?", (log, self.input_file))
        return None
  \<close>
  Without a row, \<^verbatim>\<open>fetchone()\<close> is \<^verbatim>\<open>None\<close> and the subscript raises TypeError.
\<close>

definition finish_logging ::
  "processing_log \<Rightarrow> sqlite \<Rightarrow> py_error option \<times> processing_log \<times> sqlite" where
  "finish_logging self db =
     (let self' = self\<lparr>attached := False\<rparr>
      in case database_path self' of
           None \<Rightarrow> (None, self', db)
         | Some path \<Rightarrow>
             (let db' = connect path db
              in case databases db' path of
                   None \<Rightarrow> (Some OperationalError, self', db')
                 | Some files \<Rightarrow>
                     (case files (input_file self') of
                        None \<Rightarrow> (Some TypeError, self', db')
                      | Some r \<Rightarrow>
                          (None, self',
                           db'\<lparr>databases := (databases db')(path \<mapsto>
                              files(input_file self' \<mapsto> r\<lparr>log := log r @ buffer self'\<rparr>))\<rparr>))))"

text \<open>
  The reductions of the array library over the variable \<^verbatim>\<open>tiwp\<close> of the results
  (\<^verbatim>\<open>mean\<close>, \<^verbatim>\<open>min\<close>, \<^verbatim>\<open>max\<close>, and the number of not-a-number values) are external.
  The results are the dataset's variables by name.
\<close>

record 'a reductions =
  arr_mean :: "'a \<Rightarrow> fl"
  arr_min :: "'a \<Rightarrow> fl"
  arr_max :: "'a \<Rightarrow> fl"
  count_nan :: "'a \<Rightarrow> int"

text \<open>
  \<^verbatim>\<open>
    def finalize(self, results, output_file):
        if self.database_path is None:
            return None
        tiwp_mean = np.nan; tiwp_min = np.nan; tiwp_max = np.nan; n_missing = -1
        if "tiwp" in results:
            tiwp_mean = results.tiwp.mean().item()
            tiwp_min = results.tiwp.min().item()
            tiwp_max = results.tiwp.max().item()
            n_missing = int(np.isnan(results.tiwp.data).sum())
        with sqlite3.connect(self.database_path) as conn:
            cursor = conn.cursor()
            res = cursor.execute("SELECT log FROM files WHERE name=?", (self.input_file,))
            if res.fetchone() is not None:
                res = cursor.execute("UPDATE files SET success=?, output_file=?, tiwp_min=?,
                    tiwp_max=?, tiwp_mean=?, n_missing=? WHERE name=?", data)
        return None
  \<close>
\<close>

definition finalize ::
  "'a reductions \<Rightarrow> (string \<rightharpoonup> 'a) \<Rightarrow> string \<Rightarrow> processing_log \<Rightarrow> sqlite
     \<Rightarrow> py_error option \<times> sqlite" where
  "finalize np results output_file' self db =
     (case database_path self of
        None \<Rightarrow> (None, db)
      | Some path \<Rightarrow>
          (let (tiwp_mean', tiwp_min', tiwp_max', n_missing') =
                 (case results ''tiwp'' of
                    None \<Rightarrow> (NaN, NaN, NaN, - 1)
                  | Some tiwp \<Rightarrow>
                      (arr_mean np tiwp, arr_min np tiwp, arr_max np tiwp, count_nan np tiwp));
               db' = connect path db
           in case databases db' path of
                None \<Rightarrow> (Some OperationalError, db')
              | Some files \<Rightarrow>
                  (case files (input_file self) of
                     None \<Rightarrow> (None, db')
                   | Some r \<Rightarrow>
                       (None,
                        db'\<lparr>databases := (databases db')(path \<mapsto>
                           files(input_file self \<mapsto>
                             r\<lparr>success := True, output_file := output_file',
                               tiwp_min := tiwp_min', tiwp_max := tiwp_max',
                               tiwp_mean := tiwp_mean', n_missing := n_missing'\<rparr>))\<rparr>))))"

section \<open>Masking and the regression targets\<close>

text \<open>
  A tile result is held per batch element as a list of planes over the two spatial axes,
  \<open>a ! ind ! k ! r ! c\<close>: the axes between the batch axis and the spatial axes (the
  quantiles, the levels, the classes; none for a scalar field, which then has one plane)
  are one axis of planes. The invalid mask has one plane per batch element.

  \<^verbatim>\<open>a[ind, ..., invalid[ind]] = v\<close> writes \<open>v\<close> into every plane of batch element \<open>ind\<close>
  where the mask is set; a mask whose shape is not that of the planes raises IndexError.
\<close>

definition same_shape :: "'b list list \<Rightarrow> 'a list list \<Rightarrow> bool" where
  "same_shape m plane \<longleftrightarrow> map length m = map length plane"

definition set_masked :: "'a \<Rightarrow> bool list list \<Rightarrow> 'a list list list \<Rightarrow> py_error + 'a list list list" where
  "set_masked v m planes =
     (if list_all (same_shape m) planes
      then Inr (map (\<lambda>plane. map2 (map2 (\<lambda>b x. if b then v else x)) m plane) planes)
      else Inl IndexError)"

text \<open>
  \<^verbatim>\<open>
    for ind in range(invalid.shape[0]):
        a[ind, ..., invalid[ind]] = v
  \<close>
  The loop runs over the batch elements of the mask; an array with fewer batch elements
  raises IndexError, and batch elements beyond the mask's stay as they are.
\<close>

fun mask_invalid ::
  "'a \<Rightarrow> bool list list list \<Rightarrow> 'a list list list list \<Rightarrow> py_error + 'a list list list list" where
  "mask_invalid v [] a = Inr a"
| "mask_invalid v (m # ms) [] = Inl IndexError"
| "mask_invalid v (m # ms) (x # xs) =
     (case set_masked v m x of
        Inl exc \<Rightarrow> Inl exc
      | Inr x' \<Rightarrow>
          (case mask_invalid v ms xs of
             Inl exc \<Rightarrow> Inl exc
           | Inr xs' \<Rightarrow> Inr (x' # xs')))"

section \<open>The invalid mask: \<^verbatim>\<open>get_invalid_mask\<close>\<close>

text \<open>
  The input tensor is \<open>x_in ! ind ! channel ! r ! c\<close>; a mask is a list of rows.
  \<^verbatim>\<open>np.any(x_in[ind] > -1.4, axis=0)\<close>: a pixel is present when some channel exceeds -1.4.
\<close>

definition any_above :: "real list list list \<Rightarrow> bool list list" where
  "any_above x =
     (case x of
        [] \<Rightarrow> []
      | channel # _ \<Rightarrow>
          map (\<lambda>r. map (\<lambda>c. list_ex (\<lambda>ch. ch ! r ! c > - 14 / 10) x)
                     [0..<length (channel ! r)])
            [0..<length channel])"

text \<open>
  \<^verbatim>\<open>np.pad(mask, ((8, 8), (8, 8)), mode="reflect")\<close>. Along an axis of length \<open>n\<close>, the
  value at offset \<open>j\<close> from the first element (negative in the leading pad) is the one at
  \<open>reflect_index n j\<close>: the axis is mirrored at its first and last element, without
  repeating them, as often as the pad needs. An axis of length one is repeated, and an
  empty axis raises ValueError.
\<close>

definition reflect_index :: "nat \<Rightarrow> int \<Rightarrow> nat" where
  "reflect_index n j =
     (if n = 1 then 0
      else let period = 2 * (int n - 1); m = j mod period
           in nat (if m < int n then m else period - m))"

definition pad_axis :: "nat \<Rightarrow> 'a list \<Rightarrow> py_error + 'a list" where
  "pad_axis width xs =
     (if xs = [] then Inl ValueError
      else Inr (map (\<lambda>j. xs ! reflect_index (length xs) (int j - int width))
                  [0..<length xs + 2 * width]))"

fun collect :: "(py_error + 'a) list \<Rightarrow> py_error + 'a list" where
  "collect [] = Inr []"
| "collect (Inl exc # rs) = Inl exc"
| "collect (Inr x # rs) = (case collect rs of Inl exc \<Rightarrow> Inl exc | Inr xs \<Rightarrow> Inr (x # xs))"

definition pad_reflect :: "nat \<Rightarrow> 'a list list \<Rightarrow> py_error + 'a list list" where
  "pad_reflect width arr =
     (case pad_axis width arr of
        Inl exc \<Rightarrow> Inl exc
      | Inr mask_rows \<Rightarrow> collect (map (pad_axis width) mask_rows))"

text \<open>
  \<^verbatim>\<open>binary_closing(mask, iterations=8, border_value=0)\<close> of \<^verbatim>\<open>scipy.ndimage\<close>: the
  dilation, repeated \<open>iterations\<close> times, then the erosion, repeated as often, both with
  the default structuring element of a two-dimensional array (a pixel and its four
  neighbours) and with pixels outside the array read as the border value 0.
\<close>

definition pixel :: "bool list list \<Rightarrow> int \<Rightarrow> int \<Rightarrow> bool" where
  "pixel img r c \<longleftrightarrow>
     0 \<le> r \<and> r < int (length img) \<and> 0 \<le> c \<and> c < int (length (img ! nat r))
     \<and> img ! nat r ! nat c"

definition binary_dilation1 :: "bool list list \<Rightarrow> bool list list" where
  "binary_dilation1 img =
     map (\<lambda>r. map (\<lambda>c. pixel img (int r) (int c) \<or> pixel img (int r - 1) (int c)
                       \<or> pixel img (int r + 1) (int c) \<or> pixel img (int r) (int c - 1)
                       \<or> pixel img (int r) (int c + 1))
                [0..<length (img ! r)])
       [0..<length img]"

definition binary_erosion1 :: "bool list list \<Rightarrow> bool list list" where
  "binary_erosion1 img =
     map (\<lambda>r. map (\<lambda>c. pixel img (int r) (int c) \<and> pixel img (int r - 1) (int c)
                       \<and> pixel img (int r + 1) (int c) \<and> pixel img (int r) (int c - 1)
                       \<and> pixel img (int r) (int c + 1))
                [0..<length (img ! r)])
       [0..<length img]"

definition binary_dilation :: "nat \<Rightarrow> bool list list \<Rightarrow> bool list list" where
  "binary_dilation iterations img = (binary_dilation1 ^^ iterations) img"

definition binary_erosion :: "nat \<Rightarrow> bool list list \<Rightarrow> bool list list" where
  "binary_erosion iterations img = (binary_erosion1 ^^ iterations) img"

definition binary_closing :: "nat \<Rightarrow> bool list list \<Rightarrow> bool list list" where
  "binary_closing iterations img = binary_erosion iterations (binary_dilation iterations img)"

text \<open>The slice \<^verbatim>\<open>[8:-8, 8:-8]\<close>.\<close>

definition crop :: "nat \<Rightarrow> 'a list list \<Rightarrow> 'a list list" where
  "crop width img =
     map (\<lambda>row. drop width (take (length row - width) row))
       (drop width (take (length img - width) img))"

text \<open>
  \<^verbatim>\<open>
    masks = []
    for ind in range(x_in.shape[0]):
        mask = np.any(x_in[ind] > -1.4, axis=0)
        mask = np.pad(mask, ((8, 8), (8, 8)), mode="reflect")
        mask = binary_closing(mask, iterations=8, border_value=0)[8:-8, 8:-8]
        masks.append(mask)
    return ~np.stack(masks)
  \<close>
  \<^verbatim>\<open>np.stack\<close> of no masks raises ValueError.
\<close>

definition closed_mask :: "real list list list \<Rightarrow> py_error + bool list list" where
  "closed_mask x =
     (case pad_reflect 8 (any_above x) of
        Inl exc \<Rightarrow> Inl exc
      | Inr padded \<Rightarrow> Inr (crop 8 (binary_closing 8 padded)))"

definition get_invalid_mask :: "real list list list list \<Rightarrow> py_error + bool list list list" where
  "get_invalid_mask x_in =
     (case collect (map closed_mask x_in) of
        Inl exc \<Rightarrow> Inl exc
      | Inr masks \<Rightarrow>
          if masks = [] then Inl ValueError
          else Inr (map (map (map Not)) masks))"

datatype output_format = NETCDF | ZARR

record retrieval_settings =
  tile_size :: int
  overlap :: int
  targets :: "string list option"
  roi :: "real list option"
  device :: string
  precision :: int
  output_format :: output_format
  settings_database_path :: "string option"
  inpainted_mask :: bool
  confidence_interval :: real

text \<open>The defaults of the dataclass \<^verbatim>\<open>RetrievalSettings\<close>.\<close>

definition RetrievalSettings :: retrieval_settings where
  "RetrievalSettings =
     \<lparr>tile_size = 512, overlap = 128, targets = None, roi = None, device = ''cpu'',
      precision = 32, output_format = NETCDF,
      settings_database_path = Some ''ccic_processing.db'', inpainted_mask = False,
      confidence_interval = 9 / 10\<rparr>"

definition REGRESSION_TARGETS :: "string list" where
  "REGRESSION_TARGETS = [''tiwp'', ''tiwp_fpavg'', ''tiwc'']"

definition SCALAR_TARGETS :: "string list" where
  "SCALAR_TARGETS = [''tiwp'', ''tiwp_fpavg'']"

definition THRESHOLDS :: "string \<rightharpoonup> real" where
  "THRESHOLDS = [''tiwp'' \<mapsto> 1 / 1000, ''tiwp_fpavg'' \<mapsto> 1 / 1000, ''tiwc'' \<mapsto> 1 / 1000]"

text \<open>
  The predictor (\<^verbatim>\<open>mrnn\<close>) is external: its posterior statistics are functions of the
  prediction \<open>'y\<close> of one target, and return one array per call.
\<close>

record 'y mrnn =
  posterior_mean :: "'y \<Rightarrow> string \<Rightarrow> fl list list list list"
  posterior_quantiles :: "'y \<Rightarrow> real list \<Rightarrow> string \<Rightarrow> fl list list list list"
  probability_larger_than :: "'y \<Rightarrow> real \<Rightarrow> string \<Rightarrow> fl list list list list"

text \<open>
  The result dictionaries hold, per target, the rows of tile results.
  \<^verbatim>\<open>d[target][-1].append(x)\<close> raises KeyError without the key and IndexError
  without a row.
\<close>

type_synonym accumulator = "string \<rightharpoonup> fl list list list list list list"

definition append_last :: "string \<Rightarrow> 'a \<Rightarrow> (string \<rightharpoonup> 'a list list) \<Rightarrow> py_error + (string \<rightharpoonup> 'a list list)" where
  "append_last target x d =
     (case d target of
        None \<Rightarrow> Inl KeyError
      | Some tile_rows \<Rightarrow>
          if tile_rows = [] then Inl IndexError
          else Inr (d(target \<mapsto> butlast tile_rows @ [last tile_rows @ [x]])))"

record results =
  means :: accumulator
  conf_ints :: accumulator
  p_non_zeros :: accumulator

text \<open>
  \<^verbatim>\<open>
    mean = mrnn.posterior_mean(y_pred=y_pred[target], key=target).cpu().float().numpy()
    for ind in range(invalid.shape[0]):
        mean[ind, ..., invalid[ind]] = np.nan
    means[target][-1].append(mean)

    if target in SCALAR_TARGETS:
        conf = retrieval_settings.confidence_interval
        lower = 0.5 * (1.0 - conf)
        upper = 1.0 - lower
        conf_int = mrnn.posterior_quantiles(
            y_pred=y_pred[target], quantiles=[lower, upper], key=target).cpu().float().numpy()
        for ind in range(invalid.shape[0]):
            conf_int[ind, ..., invalid[ind]] = np.nan
        conf_ints[target][-1].append(conf_int)
        p_non_zero = mrnn.probability_larger_than(
            y_pred=y_pred[target], y=THRESHOLDS[target], key=target)[:].cpu().float().numpy()
        for ind in range(invalid.shape[0]):
            p_non_zero[ind, ..., invalid[ind]] = np.nan
        p_non_zeros[target][-1].append(p_non_zero)
  \<close>
  The steps are chained on their results: the first exception ends the function.
\<close>

definition bind_result :: "py_error + 'a \<Rightarrow> ('a \<Rightarrow> py_error + 'b) \<Rightarrow> py_error + 'b" where
  "bind_result r f = (case r of Inl exc \<Rightarrow> Inl exc | Inr x \<Rightarrow> f x)"

definition lookup :: "('k \<rightharpoonup> 'v) \<Rightarrow> 'k \<Rightarrow> py_error + 'v" where
  "lookup d k = (case d k of None \<Rightarrow> Inl KeyError | Some v \<Rightarrow> Inr v)"

definition process_regression_target ::
  "retrieval_settings \<Rightarrow> 'y mrnn \<Rightarrow> (string \<rightharpoonup> 'y) \<Rightarrow> bool list list list \<Rightarrow> string
     \<Rightarrow> results \<Rightarrow> py_error + results" where
  "process_regression_target settings net y_pred invalid target res =
     bind_result (lookup y_pred target) (\<lambda>y.
     bind_result (mask_invalid NaN invalid (posterior_mean net y target)) (\<lambda>mean.
     bind_result (append_last target mean (means res)) (\<lambda>means'.
       let res1 = res\<lparr>means := means'\<rparr>
       in if target \<in> set SCALAR_TARGETS
          then
            (let conf = confidence_interval settings;
                 lower = 1 / 2 * (1 - conf);
                 upper = 1 - lower
             in
               bind_result (mask_invalid NaN invalid
                              (posterior_quantiles net y [lower, upper] target)) (\<lambda>conf_int.
               bind_result (append_last target conf_int (conf_ints res1)) (\<lambda>conf_ints'.
               bind_result (lookup THRESHOLDS target) (\<lambda>threshold.
               bind_result (mask_invalid NaN invalid
                              (probability_larger_than net y threshold target)) (\<lambda>p_non_zero.
               bind_result (append_last target p_non_zero (p_non_zeros res1)) (\<lambda>p_non_zeros'.
                 Inr (res1\<lparr>conf_ints := conf_ints', p_non_zeros := p_non_zeros'\<rparr>)))))))
          else Inr res1)))"

text \<open>
  The cloud-type branch of \<^verbatim>\<open>process_input\<close> for one tile, after the softmax (which is
  the predictor library's):
  \<^verbatim>\<open>
    ct = torch.softmax(y_pred["cloud_class"][:, 1:], 1)
    cloud_type[-1].append(ct.cpu().float().numpy())
    for ind in range(invalid.shape[0]):
        cloud_type[-1][-1][ind, ..., invalid[ind]] = -1
  \<close>
  and the class selection on one batch element of the assembled probabilities, whose
  planes are the classes: the spatial axes are flattened row by row.
\<close>

definition mask_cloud_type ::
  "bool list list list \<Rightarrow> real list list list list \<Rightarrow> py_error + real list list list list" where
  "mask_cloud_type invalid ct = mask_invalid (- 1) invalid ct"

definition cloud_type_of :: "real list list list \<Rightarrow> py_error + 8 word list" where
  "cloud_type_of class_planes = determine_cloud_class (map concat class_planes)"

section \<open>The result dataset of \<^verbatim>\<open>process_input\<close>\<close>

text \<open>
  An array is its shape and its elements in row-major order. \<open>ravel\<close> is the position of
  an index in that order and \<open>unravel\<close> the index at a position.

  \<^verbatim>\<open>np.transpose(a, axes)\<close> raises ValueError unless \<^verbatim>\<open>axes\<close> is a permutation of the axes
  of \<^verbatim>\<open>a\<close>; axis \<open>k\<close> of the result is axis \<open>axes ! k\<close> of \<^verbatim>\<open>a\<close>.
\<close>

record 'a ndarray =
  shape :: "nat list"
  data :: "'a list"

definition ravel :: "nat list \<Rightarrow> nat list \<Rightarrow> nat" where
  "ravel sh idx = foldl (\<lambda>k (n, i). k * n + i) 0 (zip sh idx)"

fun unravel :: "nat list \<Rightarrow> nat \<Rightarrow> nat list" where
  "unravel [] k = []"
| "unravel (n # sh) k = k div prod_list sh # unravel sh (k mod prod_list sh)"

definition np_transpose :: "nat list \<Rightarrow> 'a ndarray \<Rightarrow> py_error + 'a ndarray" where
  "np_transpose axes a =
     (if sort axes \<noteq> [0..<length (shape a)] then Inl ValueError
      else
        let sh = map (\<lambda>axis. shape a ! axis) axes
        in Inr \<lparr>shape = sh,
                data = map (\<lambda>k. let idx = unravel sh k
                                in data a ! ravel (shape a)
                                     (map (\<lambda>axis. idx ! length (takeWhile (\<lambda>m. m \<noteq> axis) axes))
                                        [0..<length axes]))
                         [0..<prod_list sh]\<rparr>)"

text \<open>
  \<^verbatim>\<open>determine_cloud_class\<close> on an array, with the class axis at position 1 as in
  \<^verbatim>\<open>process_input\<close>: the class axis is moved to the front and the other axes are flattened,
  which is the form \<open>determine_cloud_class\<close> takes; the result has the shape of the array
  without the class axis (\<^verbatim>\<open>del shape[axis]\<close>, which raises IndexError on an array with
  fewer than two axes).
\<close>

definition class_axis_first :: "'a ndarray \<Rightarrow> 'a list list" where
  "class_axis_first a =
     (let classes = shape a ! 1;
          inner = prod_list (drop 2 (shape a))
      in map (\<lambda>k. map (\<lambda>i. data a ! ((i div inner * classes + k) * inner + i mod inner))
                      [0..<hd (shape a) * inner])
             [0..<classes])"

definition determine_cloud_class_nd :: "real ndarray \<Rightarrow> py_error + 8 word ndarray" where
  "determine_cloud_class_nd class_probs =
     (if length (shape class_probs) < 2 then Inl IndexError
      else case determine_cloud_class (class_axis_first class_probs) of
             Inl exc \<Rightarrow> Inl exc
           | Inr types \<Rightarrow>
               Inr \<lparr>shape = hd (shape class_probs) # drop 2 (shape class_probs), data = types\<rparr>)"

text \<open>
  \<^verbatim>\<open>x.reshape(-1, *x.shape[-2:])\<close> on the input tensor: the last two axes are kept and the
  others are merged into one. The size of that axis cannot be inferred when a kept axis is
  empty, which raises RuntimeError. The tensor holds the normalised input, in which
  missing values are -1.5.
\<close>

definition reshape_planes :: "'a ndarray \<Rightarrow> py_error + 'a ndarray" where
  "reshape_planes x =
     (let plane = drop (length (shape x) - 2) (shape x)
      in if prod_list plane = 0 then Inl (OtherException ''RuntimeError'')
         else Inr \<lparr>shape = prod_list (shape x) div prod_list plane # plane, data = data x\<rparr>)"

text \<open>
  A variable of the dataset is an array with one dimension name for each axis; the
  arrays of \<^verbatim>\<open>process_input\<close> hold floating-point numbers, class indices or truth values.
  The dataset holds its variables by name, in the order of their first assignment.

  \<^verbatim>\<open>results[name] = (dims, data)\<close> raises ValueError when the number of dimension names is
  not the number of axes of the data, and when a dimension of the new variable has another
  length in a variable that the dataset keeps; otherwise the variable is assigned, in the
  place of one of the same name if there is one.
\<close>

datatype array = Float "fl ndarray" | UInt8 "8 word ndarray" | Boolean "bool ndarray"

fun shape_of :: "array \<Rightarrow> nat list" where
  "shape_of (Float a) = shape a"
| "shape_of (UInt8 a) = shape a"
| "shape_of (Boolean a) = shape a"

record variable =
  dims :: "string list"
  array :: array

type_synonym dataset = "(string \<times> variable) list"

definition conflicting :: "variable \<Rightarrow> variable \<Rightarrow> bool" where
  "conflicting v v' \<longleftrightarrow>
     list_ex (\<lambda>(d, n). list_ex (\<lambda>(d', n'). d = d' \<and> n \<noteq> n') (zip (dims v') (shape_of (array v'))))
       (zip (dims v) (shape_of (array v)))"

definition set_item :: "string \<Rightarrow> string list \<Rightarrow> array \<Rightarrow> dataset \<Rightarrow> py_error + dataset" where
  "set_item name dims' arr ds =
     (let v = \<lparr>dims = dims', array = arr\<rparr>
      in if length dims' \<noteq> length (shape_of arr) then Inl ValueError
         else if list_ex (\<lambda>(name', v'). name' \<noteq> name \<and> conflicting v v') ds then Inl ValueError
         else Inr (AList.update name v ds))"

text \<open>
  The statements of \<^verbatim>\<open>process_input\<close> after the loop over the tiles:
  \<^verbatim>\<open>
    results = xr.Dataset()
    for target, mean in means.items():
        mean = tiler.assemble(mean)
        if mean.ndim == 3:
            dims = ("time", "latitude", "longitude")
        else:
            dims = ("time", "latitude", "longitude", "altitude")
            mean = np.transpose(mean, [0, 2, 3, 1])

        results[target] = (dims, mean)

    dims = ("time", "latitude", "longitude")
    for target, p_non_zero in p_non_zeros.items():
        smpls = tiler.assemble(p_non_zero)
        results["p_" + target] = (dims, smpls)

    dims = ("time", "latitude", "longitude", "ci_bounds")
    for target, conf_int in conf_ints.items():
        conf_int = tiler.assemble(conf_int)
        results[target + "_ci"] = (dims, np.transpose(conf_int, (0, 2, 3, 1)))

    dims = ("time", "latitude", "longitude")
    if len(cloud_prob_2d) > 0:
        cloud_prob_2d = tiler.assemble(cloud_prob_2d)
        results["cloud_prob_2d"] = (dims, cloud_prob_2d)

    dims = ("time", "latitude", "longitude", "altitude")
    if len(cloud_prob_3d) > 0:
        cloud_prob_3d = tiler.assemble(cloud_prob_3d)
        cloud_prob_3d = np.transpose(cloud_prob_3d, [0, 2, 3, 1])
        results["cloud_prob_3d"] = (dims, cloud_prob_3d)

    dims = ("time", "latitude", "longitude", "altitude")
    if len(cloud_type) > 0:
        cloud_type = determine_cloud_class(tiler.assemble(cloud_type))
        cloud_type = np.transpose(cloud_type, [0, 2, 3, 1])
        results["cloud_type"] = (dims, cloud_type)
    results["altitude"] = (("altitude",), np.arange(20) * 1e3 + 500.0)

    if retrieval_settings.inpainted_mask:
        results["inpainted"] = (
            ("time", "latitude", "longitude"),
            x.reshape(-1, *x.shape[-2:]) < -1.4
        )

    return results
  \<close>
  The tiler is external (\<^verbatim>\<open>ccic.tiler\<close>), so what \<^verbatim>\<open>tiler.assemble\<close> returns is given:
  \<open>mean_arrays\<close>, \<open>p_non_zero_arrays\<close> and \<open>conf_int_arrays\<close> hold the assembled array of
  each item of the three dictionaries, in the order of the dictionary, and \<open>cloud_prob_2d\<close>,
  \<open>cloud_prob_3d\<close> and \<open>cloud_type\<close> the assembled array of a list that is not empty
  (\<open>None\<close> for an empty list). Each loop ends at the first exception.
\<close>

record assembled =
  mean_arrays :: "(string \<times> fl ndarray) list"
  p_non_zero_arrays :: "(string \<times> fl ndarray) list"
  conf_int_arrays :: "(string \<times> fl ndarray) list"
  cloud_prob_2d :: "fl ndarray option"
  cloud_prob_3d :: "fl ndarray option"
  cloud_type :: "real ndarray option"

fun add_means :: "(string \<times> fl ndarray) list \<Rightarrow> dataset \<Rightarrow> py_error + dataset" where
  "add_means [] ds = Inr ds"
| "add_means ((target, mean) # items) ds =
     (if length (shape mean) = 3
      then (case set_item target [''time'', ''latitude'', ''longitude''] (Float mean) ds of
              Inl exc \<Rightarrow> Inl exc
            | Inr ds' \<Rightarrow> add_means items ds')
      else (case np_transpose [0, 2, 3, 1] mean of
              Inl exc \<Rightarrow> Inl exc
            | Inr mean' \<Rightarrow>
                (case set_item target [''time'', ''latitude'', ''longitude'', ''altitude'']
                        (Float mean') ds of
                   Inl exc \<Rightarrow> Inl exc
                 | Inr ds' \<Rightarrow> add_means items ds')))"

fun add_p_non_zeros :: "(string \<times> fl ndarray) list \<Rightarrow> dataset \<Rightarrow> py_error + dataset" where
  "add_p_non_zeros [] ds = Inr ds"
| "add_p_non_zeros ((target, smpls) # items) ds =
     (case set_item (''p_'' @ target) [''time'', ''latitude'', ''longitude''] (Float smpls) ds of
        Inl exc \<Rightarrow> Inl exc
      | Inr ds' \<Rightarrow> add_p_non_zeros items ds')"

fun add_conf_ints :: "(string \<times> fl ndarray) list \<Rightarrow> dataset \<Rightarrow> py_error + dataset" where
  "add_conf_ints [] ds = Inr ds"
| "add_conf_ints ((target, conf_int) # items) ds =
     (case np_transpose [0, 2, 3, 1] conf_int of
        Inl exc \<Rightarrow> Inl exc
      | Inr conf_int' \<Rightarrow>
          (case set_item (target @ ''_ci'') [''time'', ''latitude'', ''longitude'', ''ci_bounds'']
                  (Float conf_int') ds of
             Inl exc \<Rightarrow> Inl exc
           | Inr ds' \<Rightarrow> add_conf_ints items ds'))"

definition add_cloud_prob_2d :: "fl ndarray option \<Rightarrow> dataset \<Rightarrow> py_error + dataset" where
  "add_cloud_prob_2d assembled ds =
     (case assembled of
        None \<Rightarrow> Inr ds
      | Some a \<Rightarrow> set_item ''cloud_prob_2d'' [''time'', ''latitude'', ''longitude''] (Float a) ds)"

definition add_cloud_prob_3d :: "fl ndarray option \<Rightarrow> dataset \<Rightarrow> py_error + dataset" where
  "add_cloud_prob_3d assembled ds =
     (case assembled of
        None \<Rightarrow> Inr ds
      | Some a \<Rightarrow>
          bind_result (np_transpose [0, 2, 3, 1] a) (\<lambda>a'.
            set_item ''cloud_prob_3d'' [''time'', ''latitude'', ''longitude'', ''altitude'']
              (Float a') ds))"

definition add_cloud_type :: "real ndarray option \<Rightarrow> dataset \<Rightarrow> py_error + dataset" where
  "add_cloud_type assembled ds =
     (case assembled of
        None \<Rightarrow> Inr ds
      | Some a \<Rightarrow>
          bind_result (determine_cloud_class_nd a) (\<lambda>types.
          bind_result (np_transpose [0, 2, 3, 1] types) (\<lambda>types'.
            set_item ''cloud_type'' [''time'', ''latitude'', ''longitude'', ''altitude'']
              (UInt8 types') ds)))"

definition add_altitude :: "dataset \<Rightarrow> py_error + dataset" where
  "add_altitude ds =
     set_item ''altitude'' [''altitude'']
       (Float \<lparr>shape = [length altitude], data = map Fl altitude\<rparr>) ds"

definition add_inpainted :: "retrieval_settings \<Rightarrow> real ndarray \<Rightarrow> dataset \<Rightarrow> py_error + dataset" where
  "add_inpainted settings x ds =
     (if inpainted_mask settings
      then bind_result (reshape_planes x) (\<lambda>planes.
             set_item ''inpainted'' [''time'', ''latitude'', ''longitude'']
               (Boolean \<lparr>shape = shape planes, data = map (\<lambda>v. v < - 14 / 10) (data planes)\<rparr>) ds)
      else Inr ds)"

definition process_input_results ::
  "retrieval_settings \<Rightarrow> real ndarray \<Rightarrow> assembled \<Rightarrow> py_error + dataset" where
  "process_input_results settings x inp =
     bind_result (add_means (mean_arrays inp) []) (\<lambda>ds.
     bind_result (add_p_non_zeros (p_non_zero_arrays inp) ds) (\<lambda>ds.
     bind_result (add_conf_ints (conf_int_arrays inp) ds) (\<lambda>ds.
     bind_result (add_cloud_prob_2d (cloud_prob_2d inp) ds) (\<lambda>ds.
     bind_result (add_cloud_prob_3d (cloud_prob_3d inp) ds) (\<lambda>ds.
     bind_result (add_cloud_type (cloud_type inp) ds) (\<lambda>ds.
     bind_result (add_altitude ds) (\<lambda>ds.
       add_inpainted settings x ds)))))))"

section \<open>The two stages of the pipeline\<close>

text \<open>
  A work item \<open>'i\<close> is the pair \<^verbatim>\<open>(input_data, date)\<close>. The methods and attributes of
  \<^verbatim>\<open>input_data\<close>, the queue's \<^verbatim>\<open>put\<close> and the per-day retrieval are external; each
  call returns or raises, and what it does is
  a function of the work item (an item that behaves differently at two places of the queue
  is two items). A \<^verbatim>\<open>put\<close> that raises has not placed the item on the queue.
  Exceptions are the instances of \<^verbatim>\<open>Exception\<close>, which the handlers catch.
\<close>

record 'i collaborators =
  has_data :: "'i \<Rightarrow> py_error + bool"
  input_download_data :: "'i \<Rightarrow> py_error + unit"
  queue_put :: "'i \<Rightarrow> py_error + unit"
  radar_attributes :: "'i \<Rightarrow> py_error + unit"
  process_day :: "'i \<Rightarrow> py_error + unit"

datatype 'i call =
  HasData 'i | DownloadData 'i | Put "'i option" | RadarAttributes 'i | ProcessDay 'i

text \<open>
  What a stage has done: the items put on the processing queue, in order, the exceptions
  given to \<^verbatim>\<open>logger.exception\<close>, and the external calls made.
\<close>

record 'i stage =
  processing_queue :: "'i option list"
  logged :: "py_error list"
  calls :: "'i call list"

definition called :: "'i call \<Rightarrow> 'i stage \<Rightarrow> 'i stage" where
  "called c s = s\<lparr>calls := calls s @ [c]\<rparr>"

text \<open>
  The body of the \<^verbatim>\<open>try\<close> of the download stage:
  \<^verbatim>\<open>
    if not input_data.has_data(date):
        input_data.download_data(date)
    processing_queue.put((input_data, date))
  \<close>
\<close>

definition try_download :: "'i collaborators \<Rightarrow> 'i \<Rightarrow> 'i stage \<Rightarrow> py_error option \<times> 'i stage" where
  "try_download ext task s =
     (let s1 = called (HasData task) s
      in case has_data ext task of
           Inl exc \<Rightarrow> (Some exc, s1)
         | Inr present \<Rightarrow>
             (let (downloaded, s2) =
                    (if \<not> present
                     then (input_download_data ext task, called (DownloadData task) s1)
                     else (Inr (), s1))
              in case downloaded of
                   Inl exc \<Rightarrow> (Some exc, s2)
                 | Inr _ \<Rightarrow>
                     (let s3 = called (Put (Some task)) s2
                      in case queue_put ext task of
                           Inl exc \<Rightarrow> (Some exc, s3)
                         | Inr _ \<Rightarrow>
                             (None, s3\<lparr>processing_queue := processing_queue s3 @ [Some task]\<rparr>))))"

text \<open>
  \<^verbatim>\<open>
    while True:
        task = download_queue.get()
        if task is None:
            break
        input_data, date = task
        try:
            ...
        except Exception as exc:
            logger.exception(exc)
    processing_queue.put(None)
  \<close>
  The download queue is the list of what it will deliver, \<open>None\<close> for the sentinel.
  \<^verbatim>\<open>get\<close> on a queue that stays empty blocks for ever: the stage does not return, which
  is the result \<open>None\<close>. The processing queue is the sequence of what is put on it; its
  capacity of four delays a \<^verbatim>\<open>put\<close> until the other stage has taken an item, and changes
  neither the items nor their order.
\<close>

definition download_step :: "'i collaborators \<Rightarrow> 'i \<Rightarrow> 'i stage \<Rightarrow> 'i stage" where
  "download_step ext task s =
     (case try_download ext task s of
        (Some exc, s') \<Rightarrow> s'\<lparr>logged := logged s' @ [exc]\<rparr>
      | (None, s') \<Rightarrow> s')"

fun download_data :: "'i collaborators \<Rightarrow> 'i option list \<Rightarrow> 'i stage \<Rightarrow> 'i stage option" where
  "download_data ext [] s = None"
| "download_data ext (None # download_queue) s =
     Some ((called (Put None) s)\<lparr>processing_queue := processing_queue s @ [None]\<rparr>)"
| "download_data ext (Some task # download_queue) s =
     download_data ext download_queue (download_step ext task s)"

text \<open>
  \<^verbatim>\<open>
    while True:
        task = processing_queue.get()
        if task is None:
            break
        input_data, date = task
        try:
            logger.info(
                "Starting %s(%s) radar-only retrieval for '%s'.",
                type(input_data.radar).__name__,
                input_data.radar.location,
                date
            )
            process_day(date, radar, input_data, static_data_path, ice_shapes, output_path)
        except Exception as exc:
            logger.exception(exc)
  \<close>
  The arguments of \<^verbatim>\<open>logger.info\<close> are evaluated inside the \<^verbatim>\<open>try\<close>, before the
  retrieval is called: \<open>radar_attributes\<close> is the evaluation of
  \<^verbatim>\<open>type(input_data.radar).__name__\<close> and \<^verbatim>\<open>input_data.radar.location\<close>, which returns
  or raises. When it raises, the exception is logged and the retrieval is not called.
\<close>

definition process_step :: "'i collaborators \<Rightarrow> 'i \<Rightarrow> 'i stage \<Rightarrow> 'i stage" where
  "process_step ext task s =
     (let s1 = called (RadarAttributes task) s
      in case radar_attributes ext task of
           Inl exc \<Rightarrow> s1\<lparr>logged := logged s1 @ [exc]\<rparr>
         | Inr _ \<Rightarrow>
             (let s2 = called (ProcessDay task) s1
              in case process_day ext task of
                   Inl exc \<Rightarrow> s2\<lparr>logged := logged s2 @ [exc]\<rparr>
                 | Inr _ \<Rightarrow> s2))"

fun process_files :: "'i collaborators \<Rightarrow> 'i option list \<Rightarrow> 'i stage \<Rightarrow> 'i stage option" where
  "process_files ext [] s = None"
| "process_files ext (None # processing_queue') s = Some s"
| "process_files ext (Some task # processing_queue') s =
     process_files ext processing_queue' (process_step ext task s)"

definition idle :: "'i stage" where
  "idle = \<lparr>processing_queue = [], logged = [], calls = []\<rparr>"

text \<open>
  Both stages on one download queue: the process stage reads what the download stage
  has put on the processing queue.
\<close>

definition pipeline :: "'i collaborators \<Rightarrow> 'i option list \<Rightarrow> ('i stage \<times> 'i stage) option" where
  "pipeline ext download_queue =
     (case download_data ext download_queue idle of
        None \<Rightarrow> None
      | Some d \<Rightarrow>
          (case process_files ext (processing_queue d) idle of
             None \<Rightarrow> None
           | Some p \<Rightarrow> Some (d, p)))"

section \<open>Notions used in the statements\<close>

text \<open>The row of an input file in the database at a path, if there is one.\<close>

definition row_of :: "sqlite \<Rightarrow> string \<Rightarrow> string \<Rightarrow> row option" where
  "row_of db path name = (case databases db path of None \<Rightarrow> None | Some files \<Rightarrow> files name)"

text \<open>
  The mask fits an array: the array has a batch element for each of the mask's, and the
  planes of each have the shape of the mask's plane.
\<close>

definition fits :: "bool list list list \<Rightarrow> 'a list list list list \<Rightarrow> bool" where
  "fits invalid a \<longleftrightarrow>
     list_all2 (\<lambda>m planes. list_all (same_shape m) planes) invalid (take (length invalid) a)"

text \<open>
  Shorthands over the external calls of a work item, written out in every statement that
  uses them. In the download stage: the item is forwarded when the check and, with the
  data absent, the download return and the \<^verbatim>\<open>put\<close> returns; an item raises the exception
  of the first of these calls that raises; the calls are the check, the download when
  the check returned false, and the \<^verbatim>\<open>put\<close> when nothing raised before. In the process
  stage: the evaluation of the radar attributes, then the retrieval when that returned.
\<close>

abbreviation forwarded :: "'i collaborators \<Rightarrow> 'i \<Rightarrow> bool" where
  "forwarded ext task \<equiv>
     (has_data ext task = Inr True
        \<or> has_data ext task = Inr False \<and> input_download_data ext task = Inr ())
     \<and> queue_put ext task = Inr ()"

abbreviation download_raised :: "'i collaborators \<Rightarrow> 'i \<Rightarrow> py_error list" where
  "download_raised ext task \<equiv>
     (case has_data ext task of
        Inl exc \<Rightarrow> [exc]
      | Inr present \<Rightarrow>
          (case (if present then Inr () else input_download_data ext task) of
             Inl exc \<Rightarrow> [exc]
           | Inr _ \<Rightarrow> (case queue_put ext task of Inl exc \<Rightarrow> [exc] | Inr _ \<Rightarrow> [])))"

abbreviation download_calls :: "'i collaborators \<Rightarrow> 'i \<Rightarrow> 'i call list" where
  "download_calls ext task \<equiv>
     HasData task
     # (if has_data ext task = Inr False then [DownloadData task] else [])
     @ (if has_data ext task = Inr True
           \<or> has_data ext task = Inr False \<and> input_download_data ext task = Inr ()
        then [Put (Some task)] else [])"

abbreviation process_raised :: "'i collaborators \<Rightarrow> 'i \<Rightarrow> py_error list" where
  "process_raised ext task \<equiv>
     (case radar_attributes ext task of
        Inl exc \<Rightarrow> [exc]
      | Inr _ \<Rightarrow> (case process_day ext task of Inl exc \<Rightarrow> [exc] | Inr _ \<Rightarrow> []))"

abbreviation process_calls :: "'i collaborators \<Rightarrow> 'i \<Rightarrow> 'i call list" where
  "process_calls ext task \<equiv>
     RadarAttributes task # (if radar_attributes ext task = Inr () then [ProcessDay task] else [])"

text \<open>
  An array of \<open>h\<close> rows of \<open>w\<close> elements; a batch of tiles with at least one channel,
  all of \<open>h\<close> by \<open>w\<close> pixels; a pixel of a tile that is present (some channel above -1.4);
  and the presence mask after the padding, at a row and column counted from the tile's
  first (from -8 to the size plus 7).
\<close>

definition rect :: "nat \<Rightarrow> nat \<Rightarrow> 'a list list \<Rightarrow> bool" where
  "rect h w img \<longleftrightarrow> length img = h \<and> list_all (\<lambda>row. length row = w) img"

definition present :: "real list list list \<Rightarrow> nat \<Rightarrow> nat \<Rightarrow> bool" where
  "present x r c \<longleftrightarrow> list_ex (\<lambda>ch. ch ! r ! c > - 14 / 10) x"

definition padded_present :: "nat \<Rightarrow> nat \<Rightarrow> real list list list \<Rightarrow> int \<Rightarrow> int \<Rightarrow> bool" where
  "padded_present h w x r c \<longleftrightarrow>
     - 8 \<le> r \<and> r < int h + 8 \<and> - 8 \<le> c \<and> c < int w + 8
     \<and> present x (reflect_index h r) (reflect_index w c)"

definition tiles :: "nat \<Rightarrow> nat \<Rightarrow> real list list list list \<Rightarrow> bool" where
  "tiles h w x_in \<longleftrightarrow> x_in \<noteq> [] \<and> list_all (\<lambda>x. x \<noteq> [] \<and> list_all (rect h w) x) x_in"

text \<open>
  Whether the invalid mask of batch element \<open>ind\<close> is set at a pixel. An example input:
  one tile of one channel, \<open>n\<close> by \<open>n\<close> pixels of value 0 but for a block of \<open>b\<close> by \<open>b\<close>
  pixels with the value -1.5 of the missing data, from row and column 1 on.
\<close>

definition block_tile :: "nat \<Rightarrow> nat \<Rightarrow> real list list list list" where
  "block_tile n b =
     [[map (\<lambda>r. map (\<lambda>c. if 1 \<le> r \<and> r \<le> b \<and> 1 \<le> c \<and> c \<le> b then - 15 / 10 else 0)
                  [0..<n])
         [0..<n]]]"

definition flagged :: "real list list list list \<Rightarrow> nat \<Rightarrow> nat \<Rightarrow> nat \<Rightarrow> bool" where
  "flagged x_in ind r c =
     (case get_invalid_mask x_in of Inl _ \<Rightarrow> False | Inr masks \<Rightarrow> masks ! ind ! r ! c)"

text \<open>
  Shapes with which the assembly returns: \<open>T\<close> times, \<open>Y\<close> latitudes and \<open>X\<close> longitudes,
  20 levels for the profiles, two bounds for the confidence intervals, at least two
  classes, and an input tensor whose planes are those of the results.
\<close>

definition well_shaped ::
  "nat \<Rightarrow> nat \<Rightarrow> nat \<Rightarrow> retrieval_settings \<Rightarrow> real ndarray \<Rightarrow> assembled \<Rightarrow> bool" where
  "well_shaped T Y X settings x inp \<longleftrightarrow>
     list_all (\<lambda>(target, mean). shape mean = [T, Y, X] \<or> shape mean = [T, 20, Y, X])
       (mean_arrays inp)
   \<and> list_all (\<lambda>(target, smpls). shape smpls = [T, Y, X]) (p_non_zero_arrays inp)
   \<and> list_all (\<lambda>(target, conf_int). shape conf_int = [T, 2, Y, X]) (conf_int_arrays inp)
   \<and> (case cloud_prob_2d inp of None \<Rightarrow> True | Some a \<Rightarrow> shape a = [T, Y, X])
   \<and> (case cloud_prob_3d inp of None \<Rightarrow> True | Some a \<Rightarrow> shape a = [T, 20, Y, X])
   \<and> (case cloud_type inp of
         None \<Rightarrow> True
       | Some a \<Rightarrow> 2 \<le> shape a ! 1 \<and> shape a = [T, shape a ! 1, 20, Y, X])
   \<and> (if inpainted_mask settings
       then 2 \<le> length (shape x) \<and> drop (length (shape x) - 2) (shape x) = [Y, X]
            \<and> prod_list (take (length (shape x) - 2) (shape x)) = T \<and> 0 < Y \<and> 0 < X
       else True)"

text \<open>
  A dataset whose names are distinct and whose variables have a dimension name for each
  axis; a variable whose axes have the lengths \<open>expected\<close> of their dimensions; and a
  dataset that holds the vertical coordinate, with 20 elements along every axis of the
  dimension \<open>altitude\<close>.
\<close>

definition well_formed :: "dataset \<Rightarrow> bool" where
  "well_formed ds \<longleftrightarrow>
     distinct (map fst ds)
     \<and> (\<forall>(name, v) \<in> set ds. length (dims v) = length (shape_of (array v)))"

definition expected :: "nat \<Rightarrow> nat \<Rightarrow> nat \<Rightarrow> string \<rightharpoonup> nat" where
  "expected T Y X =
     [''time'' \<mapsto> T, ''latitude'' \<mapsto> Y, ''longitude'' \<mapsto> X, ''altitude'' \<mapsto> 20, ''ci_bounds'' \<mapsto> 2]"

definition labelled :: "nat \<Rightarrow> nat \<Rightarrow> nat \<Rightarrow> variable \<Rightarrow> bool" where
  "labelled T Y X v \<longleftrightarrow> list_all2 (\<lambda>d n. expected T Y X d = Some n) (dims v) (shape_of (array v))"

definition carries_altitude :: "dataset \<Rightarrow> bool" where
  "carries_altitude ds \<longleftrightarrow>
     well_formed ds
     \<and> map_of ds ''altitude''
         = Some \<lparr>dims = [''altitude''], array = Float \<lparr>shape = [20], data = map Fl altitude\<rparr>\<rparr>
     \<and> (\<forall>(name, v) \<in> set ds. \<forall>i < length (dims v).
            dims v ! i = ''altitude'' \<longrightarrow> shape_of (array v) ! i = 20)"

text \<open>
  Assembled results for one time and one pixel: the profile of \<open>tiwc\<close>, the cloud
  probability and the probabilities of two classes, each on 20 levels.
\<close>

definition profile_example :: assembled where
  "profile_example =
     \<lparr>mean_arrays = [(''tiwc'', \<lparr>shape = [1, 20, 1, 1], data = map (\<lambda>k. Fl (real k)) [0..<20]\<rparr>)],
      p_non_zero_arrays = [],
      conf_int_arrays = [],
      cloud_prob_2d = None,
      cloud_prob_3d = Some \<lparr>shape = [1, 20, 1, 1], data = replicate 20 NaN\<rparr>,
      cloud_type = Some \<lparr>shape = [1, 2, 20, 1, 1], data = replicate 20 (1 / 2) @ replicate 20 1\<rparr>\<rparr>"

section \<open>Properties of the class selection\<close>

lemma argmax_less: "xs \<noteq> [] \<Longrightarrow> argmax xs < length xs"
  by (induction xs rule: argmax.induct) (auto simp: Let_def)

lemma argmax_greatest: "j < length xs \<Longrightarrow> xs ! j \<le> xs ! argmax xs"
proof (induction xs arbitrary: j rule: argmax.induct)
  case 1
  then show ?case by simp
next
  case (2 x)
  then show ?case by simp
next
  case (3 x y ys)
  show ?case
  proof (cases j)
    case 0
    then show ?thesis by (simp add: Let_def)
  next
    case (Suc j')
    with 3 have "(y # ys) ! j' \<le> (y # ys) ! argmax (y # ys)" by simp
    with Suc show ?thesis by (auto simp: Let_def)
  qed
qed

lemma argmax_first: "j < argmax xs \<Longrightarrow> xs ! j < xs ! argmax xs"
proof (induction xs arbitrary: j rule: argmax.induct)
  case 1
  then show ?case by simp
next
  case (2 x)
  then show ?case by simp
next
  case (3 x y ys)
  show ?case
  proof (cases j)
    case 0
    with 3(2) show ?thesis by (auto simp: Let_def split: if_splits)
  next
    case (Suc j')
    with 3 show ?thesis by (auto simp: Let_def split: if_splits)
  qed
qed

text \<open>
  C1 (as amended). For a probability array with a no-cloud channel and at least one other
  class channel, \<open>determine_cloud_class\<close> returns, at each element, class 0 when the
  no-cloud probability is at least 0.638 and otherwise one plus the argmax over the
  remaining channels (an 8-bit sum, which is the number itself up to 255 remaining
  channels). The probabilities (0.7, 0.1, 0.2) give class 0, and (0.2, 0.5, 0.3) give
  class 1: the argmax over the remaining channels (0.5, 0.3) is 0.
\<close>

theorem determine_cloud_class_rule:
  assumes "others \<noteq> []" and "i < length no_cloud"
  shows "\<exists>types. determine_cloud_class (no_cloud # others) = Inr types
           \<and> length types = length no_cloud
           \<and> types ! i = (if no_cloud ! i \<ge> 638 / 1000 then 0
                           else 1 + word_of_nat (argmax (column others i)))
           \<and> (length others \<le> 255 \<longrightarrow>
                unat (types ! i) = (if no_cloud ! i \<ge> 638 / 1000 then 0
                                    else 1 + argmax (column others i)))
           \<and> determine_cloud_class [[7 / 10], [1 / 10], [2 / 10]] = Inr [0]
           \<and> determine_cloud_class [[2 / 10], [5 / 10], [3 / 10]] = Inr [1]"
proof -
  obtain q rest where others: "others = q # rest"
    using assms(1) by (cases others) auto
  let ?types = "map (\<lambda>i. if no_cloud ! i < 638 / 1000
                          then word_of_nat (argmax (column others i)) + 1 else (0 :: 8 word))
                  [0..<length no_cloud]"
  have run: "determine_cloud_class (no_cloud # others) = Inr ?types"
    by (simp add: determine_cloud_class_def Let_def others)
  have nth: "?types ! i = (if no_cloud ! i \<ge> 638 / 1000 then 0
                           else 1 + word_of_nat (argmax (column others i)))"
    using assms(2) by (simp add: not_le)
  have small: "unat (?types ! i) = (if no_cloud ! i \<ge> 638 / 1000 then 0
                                    else 1 + argmax (column others i))"
    if "length others \<le> 255"
  proof -
    have "argmax (column others i) < length (column others i)"
      by (rule argmax_less) (simp add: column_def assms(1))
    then have "argmax (column others i) < 255"
      using that by (simp add: column_def)
    then have "unat (1 + word_of_nat (argmax (column others i)) :: 8 word)
                 = 1 + argmax (column others i)"
      by (simp add: unat_word_ariths unat_of_nat)
    then show ?thesis
      using nth by simp
  qed
  have ex1: "determine_cloud_class [[7 / 10], [1 / 10], [2 / 10]] = Inr [0]"
    by (simp add: determine_cloud_class_def Let_def column_def)
  have ex2: "determine_cloud_class [[2 / 10], [5 / 10], [3 / 10]] = Inr [1]"
    by (simp add: determine_cloud_class_def Let_def column_def)
  show ?thesis
  proof (intro exI [of _ ?types] conjI impI)
    show "determine_cloud_class (no_cloud # others) = Inr ?types" by (rule run)
    show "length ?types = length no_cloud" by simp
    show "?types ! i = (if no_cloud ! i \<ge> 638 / 1000 then 0
                           else 1 + word_of_nat (argmax (column others i)))" by (rule nth)
    show "unat (?types ! i) = (if no_cloud ! i \<ge> 638 / 1000 then 0
                                    else 1 + argmax (column others i))"
      if "length others \<le> 255" using that by (rule small)
    show "determine_cloud_class [[7 / 10], [1 / 10], [2 / 10]] = Inr [0]" by (rule ex1)
    show "determine_cloud_class [[2 / 10], [5 / 10], [3 / 10]] = Inr [1]" by (rule ex2)
  qed
qed

text \<open>
  The rule at two elements with three classes: the first is no cloud, the second has the
  first cloud class.
\<close>

theorem determine_cloud_class_rule_witness:
  "[[1 / 10, 5 / 10], [2 / 10, 3 / 10]] \<noteq> ([] :: real list list)
   \<and> (1 :: nat) < length [7 / 10, 2 / 10 :: real]
   \<and> determine_cloud_class [[7 / 10, 2 / 10], [1 / 10, 5 / 10], [2 / 10, 3 / 10]] = Inr [0, 1]"
  using determine_cloud_class_rule [of "[[1 / 10, 5 / 10], [2 / 10, 3 / 10]]" 1 "[7 / 10, 2 / 10]"]
  by (simp add: determine_cloud_class_def Let_def column_def)

text \<open>
  C1 as stated has (0.2, 0.5, 0.3) map to class 2; the function returns class 1.
\<close>

theorem determine_cloud_class_example_counterexample:
  "determine_cloud_class [[2 / 10], [5 / 10], [3 / 10]] \<noteq> Inr [2]"
  by (simp add: determine_cloud_class_def Let_def column_def)

section \<open>Properties of the vertical coordinate\<close>

lemma update_set:
  "distinct (map fst al) \<Longrightarrow> (k', v') \<in> set (AList.update k v al) \<Longrightarrow>
     (k', v') = (k, v) \<or> (k', v') \<in> set al \<and> k' \<noteq> k"
  by (induction al) (auto split: if_splits simp: rev_image_eqI)

lemma set_item_Inr:
  "set_item name d a ds = Inr ds' \<longleftrightarrow>
     length d = length (shape_of a)
     \<and> (\<forall>(name', v') \<in> set ds. name' \<noteq> name \<longrightarrow> \<not> conflicting \<lparr>dims = d, array = a\<rparr> v')
     \<and> ds' = AList.update name \<lparr>dims = d, array = a\<rparr> ds"
  by (auto simp: set_item_def Let_def list_ex_iff)

lemma set_item_same:
  "set_item name d a ds = Inr ds' \<Longrightarrow> map_of ds' name = Some \<lparr>dims = d, array = a\<rparr>"
  by (simp add: set_item_Inr update_conv')

lemma set_item_other:
  "set_item name d a ds = Inr ds' \<Longrightarrow> name' \<noteq> name \<Longrightarrow> map_of ds' name' = map_of ds name'"
  by (simp add: set_item_Inr update_conv')

lemma add_means_rule:
  assumes "add_means items ds = Inr ds'" and "P ds"
    and "\<And>name d a ds ds'. name \<in> fst ` set items \<Longrightarrow> P ds \<Longrightarrow> set_item name d a ds = Inr ds' \<Longrightarrow> P ds'"
  shows "P ds'"
  using assms
proof (induction items arbitrary: ds)
  case Nil
  then show ?case by simp
next
  case (Cons item items)
  obtain target mean where item: "item = (target, mean)" by (cases item)
  from Cons.prems(1) obtain d a ds1 where s: "set_item target d a ds = Inr ds1"
    and r: "add_means items ds1 = Inr ds'"
    by (auto simp: item split: if_splits sum.splits)
  have "P ds1" using Cons.prems(3) [OF _ Cons.prems(2) s] by (simp add: item)
  show ?case
    by (rule Cons.IH [OF r \<open>P ds1\<close>]) (rule Cons.prems(3), auto)
qed

lemma add_p_non_zeros_rule:
  assumes "add_p_non_zeros items ds = Inr ds'" and "P ds"
    and "\<And>target d a ds ds'. P ds \<Longrightarrow> set_item (''p_'' @ target) d a ds = Inr ds' \<Longrightarrow> P ds'"
  shows "P ds'"
  using assms
proof (induction items arbitrary: ds)
  case Nil
  then show ?case by simp
next
  case (Cons item items)
  obtain target smpls where item: "item = (target, smpls)" by (cases item)
  from Cons.prems(1) obtain d a ds1 where s: "set_item (''p_'' @ target) d a ds = Inr ds1"
    and r: "add_p_non_zeros items ds1 = Inr ds'"
    by (auto simp: item split: if_splits sum.splits)
  have "P ds1" using Cons.prems(3) [OF Cons.prems(2) s] .
  show ?case
    by (rule Cons.IH [OF r \<open>P ds1\<close>]) (rule Cons.prems(3))
qed

lemma add_conf_ints_rule:
  assumes "add_conf_ints items ds = Inr ds'" and "P ds"
    and "\<And>target d a ds ds'. P ds \<Longrightarrow> set_item (target @ ''_ci'') d a ds = Inr ds' \<Longrightarrow> P ds'"
  shows "P ds'"
  using assms
proof (induction items arbitrary: ds)
  case Nil
  then show ?case by simp
next
  case (Cons item items)
  obtain target conf_int where item: "item = (target, conf_int)" by (cases item)
  from Cons.prems(1) obtain d a ds1 where s: "set_item (target @ ''_ci'') d a ds = Inr ds1"
    and r: "add_conf_ints items ds1 = Inr ds'"
    by (auto simp: item split: if_splits sum.splits)
  have "P ds1" using Cons.prems(3) [OF Cons.prems(2) s] .
  show ?case
    by (rule Cons.IH [OF r \<open>P ds1\<close>]) (rule Cons.prems(3))
qed

lemma add_cloud_prob_2d_rule:
  assumes "add_cloud_prob_2d assembled ds = Inr ds'" and "P ds"
    and "\<And>d a ds ds'. P ds \<Longrightarrow> set_item ''cloud_prob_2d'' d a ds = Inr ds' \<Longrightarrow> P ds'"
  shows "P ds'"
  using assms by (auto simp: add_cloud_prob_2d_def split: option.splits)

lemma add_cloud_prob_3d_rule:
  assumes "add_cloud_prob_3d assembled ds = Inr ds'" and "P ds"
    and "\<And>d a ds ds'. P ds \<Longrightarrow> set_item ''cloud_prob_3d'' d a ds = Inr ds' \<Longrightarrow> P ds'"
  shows "P ds'"
  using assms by (auto simp: add_cloud_prob_3d_def bind_result_def split: option.splits sum.splits)

lemma add_cloud_type_rule:
  assumes "add_cloud_type assembled ds = Inr ds'" and "P ds"
    and "\<And>d a ds ds'. P ds \<Longrightarrow> set_item ''cloud_type'' d a ds = Inr ds' \<Longrightarrow> P ds'"
  shows "P ds'"
  using assms by (auto simp: add_cloud_type_def bind_result_def split: option.splits sum.splits)

lemma add_inpainted_rule:
  assumes "add_inpainted settings x ds = Inr ds'" and "P ds"
    and "\<And>d a ds ds'. P ds \<Longrightarrow> set_item ''inpainted'' d a ds = Inr ds' \<Longrightarrow> P ds'"
  shows "P ds'"
  using assms by (auto simp: add_inpainted_def bind_result_def split: if_splits sum.splits)

lemma set_item_well_formed:
  assumes "well_formed ds" and "set_item name d a ds = Inr ds'"
  shows "well_formed ds'"
proof -
  from assms(2) have len: "length d = length (shape_of a)"
    and ds': "ds' = AList.update name \<lparr>dims = d, array = a\<rparr> ds"
    by (simp_all add: set_item_Inr)
  have "distinct (map fst ds')"
    unfolding ds' using assms(1) by (simp add: well_formed_def distinct_update)
  moreover have "length (dims v) = length (shape_of (array v))" if "(n, v) \<in> set ds'" for n v
    using update_set [of ds n v name "\<lparr>dims = d, array = a\<rparr>"] that assms(1) len
    unfolding ds' well_formed_def by auto
  ultimately show ?thesis
    unfolding well_formed_def by auto
qed

lemma update_subset: "set (AList.update k v al) \<subseteq> insert (k, v) (set al)"
  by (induction al) auto

lemma labelled_not_conflicting:
  assumes "labelled T Y X v" and "labelled T Y X v'"
  shows "\<not> conflicting v v'"
proof
  assume "conflicting v v'"
  then obtain d n n' where "(d, n) \<in> set (zip (dims v) (shape_of (array v)))"
    and "(d, n') \<in> set (zip (dims v') (shape_of (array v')))" and "n \<noteq> n'"
    by (auto simp: conflicting_def list_ex_iff)
  with assms have "expected T Y X d = Some n" and "expected T Y X d = Some n'"
    by (auto simp: labelled_def list_all2_iff)
  with \<open>n \<noteq> n'\<close> show False by simp
qed

lemma set_item_labelled:
  assumes "\<forall>(name, v) \<in> set ds. labelled T Y X v" and "labelled T Y X \<lparr>dims = d, array = a\<rparr>"
  shows "\<exists>ds'. set_item name d a ds = Inr ds' \<and> (\<forall>(name, v) \<in> set ds'. labelled T Y X v)"
proof -
  have "length d = length (shape_of a)"
    using assms(2) by (auto simp: labelled_def dest: list_all2_lengthD)
  moreover have "\<not> conflicting \<lparr>dims = d, array = a\<rparr> v'" if "(name', v') \<in> set ds" for name' v'
    using assms(1) that by (intro labelled_not_conflicting [OF assms(2)]) auto
  ultimately have "set_item name d a ds = Inr (AList.update name \<lparr>dims = d, array = a\<rparr> ds)"
    by (auto simp: set_item_Inr)
  moreover have "\<forall>(name, v) \<in> set (AList.update name \<lparr>dims = d, array = a\<rparr> ds). labelled T Y X v"
    using assms update_subset [of name "\<lparr>dims = d, array = a\<rparr>" ds] by auto
  ultimately show ?thesis by simp
qed

lemma np_transpose_shape:
  assumes "shape a = [n0, n1, n2, n3]"
  shows "\<exists>a'. np_transpose [0, 2, 3, 1] a = Inr a' \<and> shape a' = [n0, n2, n3, n1]"
proof -
  have axes: "(sort [0, 2, 3, 1] \<noteq> [0..<length (shape a)]) = False"
    using assms by (simp add: upt_rec)
  show ?thesis
    unfolding np_transpose_def axes Let_def if_False using assms by simp
qed

lemma determine_cloud_class_nd_shape:
  assumes "shape a = [T, C, Z, Y, X]" and "2 \<le> C"
  shows "\<exists>types. determine_cloud_class_nd a = Inr types \<and> shape types = [T, Z, Y, X]"
proof -
  have classes: "[0..<C] = 0 # 1 # [2..<C]"
    using assms(2) by (simp add: upt_conv_Cons numeral_2_eq_2)
  have "shape a ! 1 = C"
    using assms(1) by simp
  then obtain no_cloud c1 others where "class_axis_first a = no_cloud # c1 # others"
    unfolding class_axis_first_def Let_def by (simp add: classes)
  then obtain types where "determine_cloud_class (class_axis_first a) = Inr types"
    by (simp add: determine_cloud_class_def Let_def)
  then show ?thesis
    using assms(1) by (simp add: determine_cloud_class_nd_def)
qed

lemma length_altitude: "length altitude = 20"
  by (simp add: altitude_def)

lemma not_conflicting_altitude:
  assumes "\<not> conflicting v \<lparr>dims = [''altitude''], array = Float \<lparr>shape = [20], data = levels\<rparr>\<rparr>
           \<or> \<not> conflicting \<lparr>dims = [''altitude''], array = Float \<lparr>shape = [20], data = levels\<rparr>\<rparr> v"
    and "length (dims v) = length (shape_of (array v))"
    and "i < length (dims v)" and "dims v ! i = ''altitude''"
  shows "shape_of (array v) ! i = 20"
proof -
  have "(dims v ! i, shape_of (array v) ! i) \<in> set (zip (dims v) (shape_of (array v)))"
    using assms(2,3) by (auto simp: set_zip)
  then show ?thesis
    using assms(1,4) by (auto simp: conflicting_def list_ex_iff)
qed

lemma add_altitude_carries:
  assumes "well_formed ds" and "add_altitude ds = Inr ds'"
  shows "carries_altitude ds'"
proof -
  let ?v = "\<lparr>dims = [''altitude''], array = Float \<lparr>shape = [20], data = map Fl altitude\<rparr>\<rparr>"
  have item: "set_item ''altitude'' [''altitude''] (Float \<lparr>shape = [20], data = map Fl altitude\<rparr>) ds
                = Inr ds'"
    using assms(2) by (simp add: add_altitude_def length_altitude)
  then have ds': "ds' = AList.update ''altitude'' ?v ds"
    and free: "\<And>name' v'. (name', v') \<in> set ds \<Longrightarrow> name' \<noteq> ''altitude'' \<Longrightarrow> \<not> conflicting ?v v'"
    by (auto simp: set_item_Inr)
  have wf: "well_formed ds'"
    by (rule set_item_well_formed [OF assms(1) item])
  have "shape_of (array v) ! i = 20"
    if "(name, v) \<in> set ds'" and "i < length (dims v)" and "dims v ! i = ''altitude''" for name v i
  proof -
    from that(1) assms(1) consider "v = ?v" | "(name, v) \<in> set ds" and "name \<noteq> ''altitude''"
      using update_set [of ds name v "''altitude''" ?v] unfolding ds' well_formed_def by auto
    then show ?thesis
    proof cases
      case 1
      then show ?thesis using that(2) by simp
    next
      case 2
      have "length (dims v) = length (shape_of (array v))"
        using 2(1) assms(1) by (auto simp: well_formed_def)
      then show ?thesis
        using free [OF 2] that(2,3) by (intro not_conflicting_altitude [of v]) auto
    qed
  qed
  then show ?thesis
    using wf set_item_same [OF item] by (auto simp: carries_altitude_def)
qed

lemma set_item_carries:
  assumes "carries_altitude ds" and "set_item name d a ds = Inr ds'" and "name \<noteq> ''altitude''"
  shows "carries_altitude ds'"
proof -
  let ?alt = "\<lparr>dims = [''altitude''], array = Float \<lparr>shape = [20], data = map Fl altitude\<rparr>\<rparr>"
  let ?v = "\<lparr>dims = d, array = a\<rparr>"
  from assms(1) have wf: "well_formed ds" and alt: "map_of ds ''altitude'' = Some ?alt"
    and levels: "\<And>name v i. (name, v) \<in> set ds \<Longrightarrow> i < length (dims v) \<Longrightarrow>
                   dims v ! i = ''altitude'' \<Longrightarrow> shape_of (array v) ! i = 20"
    by (auto simp: carries_altitude_def)
  from assms(2) have len: "length d = length (shape_of a)"
    and ds': "ds' = AList.update name ?v ds"
    and free: "\<And>name' v'. (name', v') \<in> set ds \<Longrightarrow> name' \<noteq> name \<Longrightarrow> \<not> conflicting ?v v'"
    by (auto simp: set_item_Inr)
  have "(''altitude'', ?alt) \<in> set ds"
    using alt by (rule map_of_SomeD)
  then have new: "\<not> conflicting ?v ?alt"
    using assms(3) by (intro free) auto
  have "shape_of (array v) ! i = 20"
    if "(n, v) \<in> set ds'" and "i < length (dims v)" and "dims v ! i = ''altitude''" for n v i
  proof -
    from that(1) wf consider "v = ?v" | "(n, v) \<in> set ds"
      using update_set [of ds n v name ?v] unfolding ds' well_formed_def by auto
    then show ?thesis
    proof cases
      case 1
      show ?thesis
        using new len that(2,3) unfolding 1 by (intro not_conflicting_altitude [of ?v]) auto
    next
      case 2
      then show ?thesis using that(2,3) by (rule levels)
    qed
  qed
  moreover have "map_of ds' ''altitude'' = Some ?alt"
    using set_item_other [OF assms(2), of "''altitude''"] assms(3) alt by simp
  ultimately show ?thesis
    using set_item_well_formed [OF wf assms(2)] by (auto simp: carries_altitude_def)
qed

lemma set_item_keeps:
  assumes "map_of ds n = Some v" and "set_item name d a ds = Inr ds'" and "name \<noteq> n"
  shows "map_of ds' n = Some v"
  using assms set_item_other [OF assms(2), of n] by auto

lemma add_means_profile:
  assumes "add_means items ds = Inr ds'" and "distinct (map fst items)"
    and "(target, mean) \<in> set items" and "length (shape mean) \<noteq> 3"
  shows "\<exists>mean'. np_transpose [0, 2, 3, 1] mean = Inr mean'
           \<and> map_of ds' target
               = Some \<lparr>dims = [''time'', ''latitude'', ''longitude'', ''altitude''],
                       array = Float mean'\<rparr>"
  using assms
proof (induction items arbitrary: ds)
  case Nil
  then show ?case by simp
next
  case (Cons item items)
  obtain target' mean' where item: "item = (target', mean')" by (cases item)
  show ?case
  proof (cases "target' = target")
    case True
    with Cons.prems(2,3) have mean': "mean' = mean" and rest: "target \<notin> fst ` set items"
      by (auto simp: item rev_image_eqI)
    from Cons.prems(1,4) obtain a ds1
      where t: "np_transpose [0, 2, 3, 1] mean = Inr a"
        and s: "set_item target [''time'', ''latitude'', ''longitude'', ''altitude''] (Float a) ds
                  = Inr ds1"
        and r: "add_means items ds1 = Inr ds'"
      by (auto simp: item True mean' split: if_splits sum.splits)
    let ?v = "\<lparr>dims = [''time'', ''latitude'', ''longitude'', ''altitude''], array = Float a\<rparr>"
    have "map_of ds1 target = Some ?v"
      using set_item_same [OF s] by simp
    then have "map_of ds' target = Some ?v"
    proof (rule add_means_rule [OF r])
      fix name d a' ds ds'
      assume "name \<in> fst ` set items" and "map_of ds target = Some ?v"
        and "set_item name d a' ds = Inr ds'"
      then show "map_of ds' target = Some ?v"
        using rest by (intro set_item_keeps [of ds target ?v name d a' ds']) auto
    qed
    with t show ?thesis by simp
  next
    case False
    from Cons.prems(1) obtain ds1 where r: "add_means items ds1 = Inr ds'"
      by (auto simp: item split: if_splits sum.splits)
    show ?thesis
      using Cons.prems(2,3) False by (intro Cons.IH [OF r _ _ Cons.prems(4)]) (auto simp: item)
  qed
qed

lemma REGRESSION_TARGETS_names:
  assumes "target \<in> set REGRESSION_TARGETS"
  shows "''p_'' @ t \<noteq> target" and "t @ ''_ci'' \<noteq> target" and "''cloud_prob_2d'' \<noteq> target"
    and "''cloud_prob_3d'' \<noteq> target" and "''cloud_type'' \<noteq> target"
    and "''altitude'' \<noteq> target" and "''inpainted'' \<noteq> target"
proof -
  show "''p_'' @ t \<noteq> target" and "''cloud_prob_2d'' \<noteq> target"
    and "''cloud_prob_3d'' \<noteq> target" and "''cloud_type'' \<noteq> target"
    and "''altitude'' \<noteq> target" and "''inpainted'' \<noteq> target"
    using assms by (auto simp: REGRESSION_TARGETS_def)
  show "t @ ''_ci'' \<noteq> target"
  proof
    assume "t @ ''_ci'' = target"
    then have "last target = CHR ''i''" by auto
    with assms show False by (auto simp: REGRESSION_TARGETS_def)
  qed
qed


lemma labelled_planes:
  "shape_of a = [T, Y, X] \<Longrightarrow> labelled T Y X \<lparr>dims = [''time'', ''latitude'', ''longitude''], array = a\<rparr>"
  by (simp add: labelled_def expected_def)

lemma labelled_profile:
  "shape_of a = [T, Y, X, 20] \<Longrightarrow>
     labelled T Y X \<lparr>dims = [''time'', ''latitude'', ''longitude'', ''altitude''], array = a\<rparr>"
  by (simp add: labelled_def expected_def)

lemma labelled_bounds:
  "shape_of a = [T, Y, X, 2] \<Longrightarrow>
     labelled T Y X \<lparr>dims = [''time'', ''latitude'', ''longitude'', ''ci_bounds''], array = a\<rparr>"
  by (simp add: labelled_def expected_def)

lemma labelled_altitude:
  "labelled T Y X \<lparr>dims = [''altitude''], array = Float \<lparr>shape = [length altitude], data = levels\<rparr>\<rparr>"
  by (simp add: labelled_def expected_def length_altitude)

lemma add_means_returns:
  assumes "\<forall>(name, v) \<in> set ds. labelled T Y X v"
    and "\<forall>(target, mean) \<in> set items. shape mean = [T, Y, X] \<or> shape mean = [T, 20, Y, X]"
  shows "\<exists>ds'. add_means items ds = Inr ds' \<and> (\<forall>(name, v) \<in> set ds'. labelled T Y X v)"
  using assms
proof (induction items arbitrary: ds)
  case Nil
  then show ?case by simp
next
  case (Cons item items)
  obtain target mean where item: "item = (target, mean)" by (cases item)
  from Cons.prems(2) consider "shape mean = [T, Y, X]" | "shape mean = [T, 20, Y, X]"
    by (auto simp: item)
  then obtain ds1 where step: "add_means (item # items) ds = add_means items ds1"
    and ds1: "\<forall>(name, v) \<in> set ds1. labelled T Y X v"
  proof cases
    case 1
    from set_item_labelled [OF Cons.prems(1) labelled_planes, of "Float mean" target] 1
    obtain ds1 where "set_item target [''time'', ''latitude'', ''longitude''] (Float mean) ds = Inr ds1"
      and "\<forall>(name, v) \<in> set ds1. labelled T Y X v"
      by auto
    with 1 that show ?thesis by (simp add: item)
  next
    case 2
    from np_transpose_shape [OF 2] obtain mean'
      where t: "np_transpose [0, 2, 3, 1] mean = Inr mean'" and sh: "shape mean' = [T, Y, X, 20]"
      by auto
    from set_item_labelled [OF Cons.prems(1) labelled_profile, of "Float mean'" target] sh
    obtain ds1 where "set_item target [''time'', ''latitude'', ''longitude'', ''altitude'']
                        (Float mean') ds = Inr ds1"
      and "\<forall>(name, v) \<in> set ds1. labelled T Y X v"
      by auto
    with 2 t that show ?thesis by (simp add: item)
  qed
  show ?case
    unfolding step using Cons.prems(2) by (intro Cons.IH [OF ds1]) simp
qed

lemma add_p_non_zeros_returns:
  assumes "\<forall>(name, v) \<in> set ds. labelled T Y X v"
    and "\<forall>(target, smpls) \<in> set items. shape smpls = [T, Y, X]"
  shows "\<exists>ds'. add_p_non_zeros items ds = Inr ds' \<and> (\<forall>(name, v) \<in> set ds'. labelled T Y X v)"
  using assms
proof (induction items arbitrary: ds)
  case Nil
  then show ?case by simp
next
  case (Cons item items)
  obtain target smpls where item: "item = (target, smpls)" by (cases item)
  from Cons.prems(2) have sh: "shape smpls = [T, Y, X]"
    by (simp add: item)
  from set_item_labelled [OF Cons.prems(1) labelled_planes, of "Float smpls" "''p_'' @ target"] sh
  obtain ds1
    where "set_item (''p_'' @ target) [''time'', ''latitude'', ''longitude''] (Float smpls) ds = Inr ds1"
      and ds1: "\<forall>(name, v) \<in> set ds1. labelled T Y X v"
    by auto
  then have step: "add_p_non_zeros (item # items) ds = add_p_non_zeros items ds1"
    by (simp add: item)
  show ?case
    unfolding step using Cons.prems(2) by (intro Cons.IH [OF ds1]) simp
qed

lemma add_conf_ints_returns:
  assumes "\<forall>(name, v) \<in> set ds. labelled T Y X v"
    and "\<forall>(target, conf_int) \<in> set items. shape conf_int = [T, 2, Y, X]"
  shows "\<exists>ds'. add_conf_ints items ds = Inr ds' \<and> (\<forall>(name, v) \<in> set ds'. labelled T Y X v)"
  using assms
proof (induction items arbitrary: ds)
  case Nil
  then show ?case by simp
next
  case (Cons item items)
  obtain target conf_int where item: "item = (target, conf_int)" by (cases item)
  from Cons.prems(2) have "shape conf_int = [T, 2, Y, X]"
    by (simp add: item)
  from np_transpose_shape [OF this] obtain conf_int'
    where t: "np_transpose [0, 2, 3, 1] conf_int = Inr conf_int'"
      and sh: "shape conf_int' = [T, Y, X, 2]"
    by auto
  from set_item_labelled [OF Cons.prems(1) labelled_bounds, of "Float conf_int'" "target @ ''_ci''"] sh
  obtain ds1
    where "set_item (target @ ''_ci'') [''time'', ''latitude'', ''longitude'', ''ci_bounds'']
             (Float conf_int') ds = Inr ds1"
      and ds1: "\<forall>(name, v) \<in> set ds1. labelled T Y X v"
    by auto
  with t have step: "add_conf_ints (item # items) ds = add_conf_ints items ds1"
    by (simp add: item)
  show ?case
    unfolding step using Cons.prems(2) by (intro Cons.IH [OF ds1]) simp
qed

lemma add_cloud_prob_2d_returns:
  assumes "\<forall>(name, v) \<in> set ds. labelled T Y X v"
    and "case assembled of None \<Rightarrow> True | Some a \<Rightarrow> shape a = [T, Y, X]"
  shows "\<exists>ds'. add_cloud_prob_2d assembled ds = Inr ds' \<and> (\<forall>(name, v) \<in> set ds'. labelled T Y X v)"
proof (cases assembled)
  case None
  then show ?thesis using assms(1) by (simp add: add_cloud_prob_2d_def)
next
  case (Some a)
  with assms(2) have "shape_of (Float a) = [T, Y, X]" by simp
  from set_item_labelled [OF assms(1) labelled_planes [OF this]] show ?thesis
    by (simp add: add_cloud_prob_2d_def Some)
qed

lemma add_cloud_prob_3d_returns:
  assumes "\<forall>(name, v) \<in> set ds. labelled T Y X v"
    and "case assembled of None \<Rightarrow> True | Some a \<Rightarrow> shape a = [T, 20, Y, X]"
  shows "\<exists>ds'. add_cloud_prob_3d assembled ds = Inr ds' \<and> (\<forall>(name, v) \<in> set ds'. labelled T Y X v)"
proof (cases assembled)
  case None
  then show ?thesis using assms(1) by (simp add: add_cloud_prob_3d_def)
next
  case (Some a)
  with assms(2) have "shape a = [T, 20, Y, X]" by simp
  from np_transpose_shape [OF this] obtain a'
    where t: "np_transpose [0, 2, 3, 1] a = Inr a'" and "shape a' = [T, Y, X, 20]"
    by auto
  then have "shape_of (Float a') = [T, Y, X, 20]" by simp
  from set_item_labelled [OF assms(1) labelled_profile [OF this]] show ?thesis
    unfolding add_cloud_prob_3d_def Some option.case bind_result_def t sum.case by simp
qed

lemma add_cloud_type_returns:
  assumes "\<forall>(name, v) \<in> set ds. labelled T Y X v"
    and "case assembled of None \<Rightarrow> True
         | Some a \<Rightarrow> 2 \<le> shape a ! 1 \<and> shape a = [T, shape a ! 1, 20, Y, X]"
  shows "\<exists>ds'. add_cloud_type assembled ds = Inr ds' \<and> (\<forall>(name, v) \<in> set ds'. labelled T Y X v)"
proof (cases assembled)
  case None
  then show ?thesis using assms(1) by (simp add: add_cloud_type_def)
next
  case (Some a)
  with assms(2) have "shape a = [T, shape a ! 1, 20, Y, X]" and "2 \<le> shape a ! 1" by simp_all
  from determine_cloud_class_nd_shape [OF this] obtain types
    where c: "determine_cloud_class_nd a = Inr types" and "shape types = [T, 20, Y, X]"
    by auto
  from np_transpose_shape [OF this(2)] obtain types'
    where t: "np_transpose [0, 2, 3, 1] types = Inr types'" and "shape types' = [T, Y, X, 20]"
    by auto
  then have "shape_of (UInt8 types') = [T, Y, X, 20]" by simp
  from set_item_labelled [OF assms(1) labelled_profile [OF this]] show ?thesis
    unfolding add_cloud_type_def Some option.case bind_result_def c sum.case t by simp
qed

lemma add_altitude_returns:
  assumes "\<forall>(name, v) \<in> set ds. labelled T Y X v"
  shows "\<exists>ds'. add_altitude ds = Inr ds' \<and> (\<forall>(name, v) \<in> set ds'. labelled T Y X v)"
  unfolding add_altitude_def by (rule set_item_labelled [OF assms labelled_altitude])

lemma reshape_planes_shape:
  assumes "2 \<le> length (shape x)" and "drop (length (shape x) - 2) (shape x) = [Y, X]"
    and "prod_list (take (length (shape x) - 2) (shape x)) = T" and "0 < Y" and "0 < X"
  shows "\<exists>planes. reshape_planes x = Inr planes \<and> shape planes = [T, Y, X]"
proof -
  have "prod_list (shape x)
          = prod_list (take (length (shape x) - 2) (shape x) @ drop (length (shape x) - 2) (shape x))"
    by simp
  also have "\<dots> = T * (Y * X)"
    unfolding prod_list.append assms(2,3) by simp
  finally have "prod_list (shape x) div (Y * X) = T"
    using assms(4,5) by simp
  then show ?thesis
    using assms(2,4,5) by (simp add: reshape_planes_def Let_def)
qed

lemma add_inpainted_returns:
  assumes "\<forall>(name, v) \<in> set ds. labelled T Y X v"
    and "if inpainted_mask settings
         then 2 \<le> length (shape x) \<and> drop (length (shape x) - 2) (shape x) = [Y, X]
              \<and> prod_list (take (length (shape x) - 2) (shape x)) = T \<and> 0 < Y \<and> 0 < X
         else True"
  shows "\<exists>ds'. add_inpainted settings x ds = Inr ds'"
proof (cases "inpainted_mask settings")
  case False
  then show ?thesis by (simp add: add_inpainted_def)
next
  case True
  with assms(2) reshape_planes_shape [of x Y X T] obtain planes
    where r: "reshape_planes x = Inr planes" and "shape planes = [T, Y, X]"
    by auto
  then have "shape_of (Boolean \<lparr>shape = shape planes,
                                data = map (\<lambda>v. v < - 14 / 10) (data planes)\<rparr>) = [T, Y, X]"
    by simp
  from set_item_labelled [OF assms(1) labelled_planes [OF this]] show ?thesis
    using True by (auto simp: add_inpainted_def r bind_result_def)
qed

lemma process_input_results_returns:
  assumes "well_shaped T Y X settings x inp"
  shows "\<exists>ds. process_input_results settings x inp = Inr ds"
proof -
  have "\<forall>(name, v) \<in> set ([] :: dataset). labelled T Y X v" by simp
  from add_means_returns [OF this, of "mean_arrays inp"] assms obtain ds1
    where m: "add_means (mean_arrays inp) [] = Inr ds1"
      and l: "\<forall>(name, v) \<in> set ds1. labelled T Y X v"
    by (auto simp: well_shaped_def list_all_iff)
  from add_p_non_zeros_returns [OF l, of "p_non_zero_arrays inp"] assms obtain ds2
    where p: "add_p_non_zeros (p_non_zero_arrays inp) ds1 = Inr ds2"
      and l: "\<forall>(name, v) \<in> set ds2. labelled T Y X v"
    by (auto simp: well_shaped_def list_all_iff)
  from add_conf_ints_returns [OF l, of "conf_int_arrays inp"] assms obtain ds3
    where c: "add_conf_ints (conf_int_arrays inp) ds2 = Inr ds3"
      and l: "\<forall>(name, v) \<in> set ds3. labelled T Y X v"
    by (auto simp: well_shaped_def list_all_iff)
  from add_cloud_prob_2d_returns [OF l, of "cloud_prob_2d inp"] assms obtain ds4
    where c2: "add_cloud_prob_2d (cloud_prob_2d inp) ds3 = Inr ds4"
      and l: "\<forall>(name, v) \<in> set ds4. labelled T Y X v"
    by (auto simp: well_shaped_def)
  from add_cloud_prob_3d_returns [OF l, of "cloud_prob_3d inp"] assms obtain ds5
    where c3: "add_cloud_prob_3d (cloud_prob_3d inp) ds4 = Inr ds5"
      and l: "\<forall>(name, v) \<in> set ds5. labelled T Y X v"
    by (auto simp: well_shaped_def)
  from add_cloud_type_returns [OF l, of "cloud_type inp"] assms obtain ds6
    where ct: "add_cloud_type (cloud_type inp) ds5 = Inr ds6"
      and l: "\<forall>(name, v) \<in> set ds6. labelled T Y X v"
    by (auto simp: well_shaped_def)
  from add_altitude_returns [OF l] obtain ds7
    where al: "add_altitude ds6 = Inr ds7"
      and l: "\<forall>(name, v) \<in> set ds7. labelled T Y X v"
    by auto
  from add_inpainted_returns [OF l, of settings x] assms obtain ds
    where ip: "add_inpainted settings x ds7 = Inr ds"
    by (auto simp: well_shaped_def)
  show ?thesis
    by (simp add: process_input_results_def bind_result_def m p c c2 c3 ct al ip)
qed

text \<open>
  A cloud probability on three levels: the assignment of the coordinate raises.
\<close>

lemma three_levels_conflict:
  "process_input_results RetrievalSettings x
     \<lparr>mean_arrays = [], p_non_zero_arrays = [], conf_int_arrays = [], cloud_prob_2d = None,
      cloud_prob_3d = Some \<lparr>shape = [1, 3, 1, 1], data = [NaN, NaN, NaN]\<rparr>,
      cloud_type = None\<rparr>
   = Inl ValueError"
  by (simp add: process_input_results_def bind_result_def add_cloud_prob_2d_def
      add_cloud_prob_3d_def add_cloud_type_def add_altitude_def add_inpainted_def
      np_transpose_def set_item_def conflicting_def length_altitude upt_rec Let_def)

text \<open>
  C6 (as amended). The levels of the vertical coordinate are 500 m, 1500 m, ..., 19500 m:
  20 levels, the first at 500 m, each 1000 m above the one before. Every dataset that
  the assembly returns carries them as the variable \<open>altitude\<close> on the dimension
  \<open>altitude\<close>, and every axis of that dimension in the dataset has 20 elements. The
  coordinate is attached for the profile targets: the variable of a regression target
  whose assembled mean has a vertical axis, of \<open>cloud_prob_3d\<close> and of \<open>cloud_type\<close> is the
  transposed array on the dimensions (time, latitude, longitude, altitude), with 20
  elements along \<open>altitude\<close>. The keys of the means are distinct regression targets, as
  the loop over the tiles leaves them. On results of the shapes of \<open>well_shaped\<close> the
  assembly returns a dataset.
\<close>

theorem altitude_levels:
  assumes "distinct (map fst (mean_arrays inp))"
    and "set (map fst (mean_arrays inp)) \<subseteq> set REGRESSION_TARGETS"
  shows
    "altitude = [500, 1500, 2500, 3500, 4500, 5500, 6500, 7500, 8500, 9500,
                 10500, 11500, 12500, 13500, 14500, 15500, 16500, 17500, 18500, 19500]
     \<and> length altitude = 20
     \<and> hd altitude = 500
     \<and> map2 (\<lambda>upper lower. upper - lower) (tl altitude) altitude = replicate 19 1000
     \<and> (\<forall>ds. process_input_results settings x inp = Inr ds \<longrightarrow>
           map_of ds ''altitude''
             = Some \<lparr>dims = [''altitude''],
                     array = Float \<lparr>shape = [20], data = map Fl altitude\<rparr>\<rparr>
         \<and> (\<forall>(name, v) \<in> set ds.
               length (dims v) = length (shape_of (array v))
               \<and> (\<forall>i < length (dims v).
                     dims v ! i = ''altitude'' \<longrightarrow> shape_of (array v) ! i = 20))
         \<and> (\<forall>(target, mean) \<in> set (mean_arrays inp).
               length (shape mean) \<noteq> 3 \<longrightarrow>
                 (\<exists>mean'. np_transpose [0, 2, 3, 1] mean = Inr mean'
                    \<and> map_of ds target
                        = Some \<lparr>dims = [''time'', ''latitude'', ''longitude'', ''altitude''],
                                array = Float mean'\<rparr>
                    \<and> shape mean' ! 3 = 20))
         \<and> (\<forall>a. cloud_prob_3d inp = Some a \<longrightarrow>
               (\<exists>a'. np_transpose [0, 2, 3, 1] a = Inr a'
                  \<and> map_of ds ''cloud_prob_3d''
                      = Some \<lparr>dims = [''time'', ''latitude'', ''longitude'', ''altitude''],
                              array = Float a'\<rparr>
                  \<and> shape a' ! 3 = 20))
         \<and> (\<forall>a. cloud_type inp = Some a \<longrightarrow>
               (\<exists>types types'. determine_cloud_class_nd a = Inr types
                  \<and> np_transpose [0, 2, 3, 1] types = Inr types'
                  \<and> map_of ds ''cloud_type''
                      = Some \<lparr>dims = [''time'', ''latitude'', ''longitude'', ''altitude''],
                              array = UInt8 types'\<rparr>
                  \<and> shape types' ! 3 = 20)))
     \<and> (well_shaped T Y X settings x inp \<longrightarrow>
          (\<exists>ds. process_input_results settings x inp = Inr ds))"
proof -
  let ?profile = "[''time'', ''latitude'', ''longitude'', ''altitude'']"
  have levels: "altitude = [500, 1500, 2500, 3500, 4500, 5500, 6500, 7500, 8500, 9500,
                 10500, 11500, 12500, 13500, 14500, 15500, 16500, 17500, 18500, 19500]"
    by (simp add: altitude_def upt_rec numeral_eq_Suc)
  have spacing: "length altitude = 20" "hd altitude = 500"
    "map2 (\<lambda>upper lower. upper - lower) (tl altitude) altitude = replicate 19 1000"
    unfolding levels by (simp_all add: numeral_eq_Suc)
  have carried:
    "map_of ds ''altitude''
       = Some \<lparr>dims = [''altitude''], array = Float \<lparr>shape = [20], data = map Fl altitude\<rparr>\<rparr>
     \<and> (\<forall>(name, v) \<in> set ds.
           length (dims v) = length (shape_of (array v))
           \<and> (\<forall>i < length (dims v).
                 dims v ! i = ''altitude'' \<longrightarrow> shape_of (array v) ! i = 20))
     \<and> (\<forall>(target, mean) \<in> set (mean_arrays inp).
           length (shape mean) \<noteq> 3 \<longrightarrow>
             (\<exists>mean'. np_transpose [0, 2, 3, 1] mean = Inr mean'
                \<and> map_of ds target = Some \<lparr>dims = ?profile, array = Float mean'\<rparr>
                \<and> shape mean' ! 3 = 20))
     \<and> (\<forall>a. cloud_prob_3d inp = Some a \<longrightarrow>
           (\<exists>a'. np_transpose [0, 2, 3, 1] a = Inr a'
              \<and> map_of ds ''cloud_prob_3d'' = Some \<lparr>dims = ?profile, array = Float a'\<rparr>
              \<and> shape a' ! 3 = 20))
     \<and> (\<forall>a. cloud_type inp = Some a \<longrightarrow>
           (\<exists>types types'. determine_cloud_class_nd a = Inr types
              \<and> np_transpose [0, 2, 3, 1] types = Inr types'
              \<and> map_of ds ''cloud_type'' = Some \<lparr>dims = ?profile, array = UInt8 types'\<rparr>
              \<and> shape types' ! 3 = 20))"
    if run: "process_input_results settings x inp = Inr ds" for ds
  proof -
    from run obtain ds1 ds2 ds3 ds4 ds5 ds6 ds7
      where m: "add_means (mean_arrays inp) [] = Inr ds1"
        and p: "add_p_non_zeros (p_non_zero_arrays inp) ds1 = Inr ds2"
        and c: "add_conf_ints (conf_int_arrays inp) ds2 = Inr ds3"
        and c2: "add_cloud_prob_2d (cloud_prob_2d inp) ds3 = Inr ds4"
        and c3: "add_cloud_prob_3d (cloud_prob_3d inp) ds4 = Inr ds5"
        and ct: "add_cloud_type (cloud_type inp) ds5 = Inr ds6"
        and al: "add_altitude ds6 = Inr ds7"
        and ip: "add_inpainted settings x ds7 = Inr ds"
      by (auto simp: process_input_results_def bind_result_def split: sum.splits)
    have "well_formed []" by (simp add: well_formed_def)
    then have "well_formed ds1"
      by (rule add_means_rule [OF m]) (rule set_item_well_formed)
    then have "well_formed ds2"
      by (rule add_p_non_zeros_rule [OF p]) (rule set_item_well_formed)
    then have "well_formed ds3"
      by (rule add_conf_ints_rule [OF c]) (rule set_item_well_formed)
    then have "well_formed ds4"
      by (rule add_cloud_prob_2d_rule [OF c2]) (rule set_item_well_formed)
    then have "well_formed ds5"
      by (rule add_cloud_prob_3d_rule [OF c3]) (rule set_item_well_formed)
    then have "well_formed ds6"
      by (rule add_cloud_type_rule [OF ct]) (rule set_item_well_formed)
    then have "carries_altitude ds7"
      using al by (rule add_altitude_carries)
    then have carries: "carries_altitude ds"
      by (rule add_inpainted_rule [OF ip]) (rule set_item_carries, assumption, assumption, simp)
    then have size: "shape_of (array v) ! 3 = 20"
      if "map_of ds name = Some v" and "dims v = ?profile" for name v
      using map_of_SomeD [OF that(1)] that(2) by (auto simp: carries_altitude_def)
    have kept: "map_of ds name = Some v"
      if "map_of ds6 name = Some v" and "name \<noteq> ''altitude''" and "name \<noteq> ''inpainted''"
      for name v
    proof -
      have "map_of ds7 name = Some v"
        using that(1) al [unfolded add_altitude_def] by (rule set_item_keeps) (use that(2) in simp)
      then show ?thesis
        by (rule add_inpainted_rule [OF ip]) (rule set_item_keeps, assumption, assumption, use that(3) in simp)
    qed
    have means: "\<exists>mean'. np_transpose [0, 2, 3, 1] mean = Inr mean'
                \<and> map_of ds target = Some \<lparr>dims = ?profile, array = Float mean'\<rparr>
                \<and> shape mean' ! 3 = 20"
      if "(target, mean) \<in> set (mean_arrays inp)" and "length (shape mean) \<noteq> 3" for target mean
    proof -
      from add_means_profile [OF m assms(1) that] obtain mean'
        where t: "np_transpose [0, 2, 3, 1] mean = Inr mean'"
          and v: "map_of ds1 target = Some \<lparr>dims = ?profile, array = Float mean'\<rparr>"
        by auto
      have target: "target \<in> set REGRESSION_TARGETS"
        using that(1) assms(2) by force
      note names = REGRESSION_TARGETS_names [OF target]
      from v have "map_of ds2 target = Some \<lparr>dims = ?profile, array = Float mean'\<rparr>"
        by (rule add_p_non_zeros_rule [OF p]) (rule set_item_keeps, assumption, assumption, rule names)
      then have "map_of ds3 target = Some \<lparr>dims = ?profile, array = Float mean'\<rparr>"
        by (rule add_conf_ints_rule [OF c]) (rule set_item_keeps, assumption, assumption, rule names)
      then have "map_of ds4 target = Some \<lparr>dims = ?profile, array = Float mean'\<rparr>"
        by (rule add_cloud_prob_2d_rule [OF c2]) (rule set_item_keeps, assumption, assumption, rule names)
      then have "map_of ds5 target = Some \<lparr>dims = ?profile, array = Float mean'\<rparr>"
        by (rule add_cloud_prob_3d_rule [OF c3]) (rule set_item_keeps, assumption, assumption, rule names)
      then have "map_of ds6 target = Some \<lparr>dims = ?profile, array = Float mean'\<rparr>"
        by (rule add_cloud_type_rule [OF ct]) (rule set_item_keeps, assumption, assumption, rule names)
      then have "map_of ds target = Some \<lparr>dims = ?profile, array = Float mean'\<rparr>"
        by (rule kept) (use names in auto)
      with t size [OF this] show ?thesis by simp
    qed
    have prob: "\<exists>a'. np_transpose [0, 2, 3, 1] a = Inr a'
              \<and> map_of ds ''cloud_prob_3d'' = Some \<lparr>dims = ?profile, array = Float a'\<rparr>
              \<and> shape a' ! 3 = 20"
      if "cloud_prob_3d inp = Some a" for a
    proof -
      from c3 that obtain a' where t: "np_transpose [0, 2, 3, 1] a = Inr a'"
        and s: "set_item ''cloud_prob_3d'' ?profile (Float a') ds4 = Inr ds5"
        by (auto simp: add_cloud_prob_3d_def bind_result_def split: sum.splits)
      have "map_of ds5 ''cloud_prob_3d'' = Some \<lparr>dims = ?profile, array = Float a'\<rparr>"
        by (rule set_item_same [OF s])
      then have "map_of ds6 ''cloud_prob_3d'' = Some \<lparr>dims = ?profile, array = Float a'\<rparr>"
        by (rule add_cloud_type_rule [OF ct]) (rule set_item_keeps, assumption, assumption, simp)
      then have "map_of ds ''cloud_prob_3d'' = Some \<lparr>dims = ?profile, array = Float a'\<rparr>"
        by (rule kept) simp_all
      with t size [OF this] show ?thesis by simp
    qed
    have type: "\<exists>types types'. determine_cloud_class_nd a = Inr types
              \<and> np_transpose [0, 2, 3, 1] types = Inr types'
              \<and> map_of ds ''cloud_type'' = Some \<lparr>dims = ?profile, array = UInt8 types'\<rparr>
              \<and> shape types' ! 3 = 20"
      if "cloud_type inp = Some a" for a
    proof -
      from ct that obtain types types' where d: "determine_cloud_class_nd a = Inr types"
        and t: "np_transpose [0, 2, 3, 1] types = Inr types'"
        and s: "set_item ''cloud_type'' ?profile (UInt8 types') ds5 = Inr ds6"
        by (auto simp: add_cloud_type_def bind_result_def split: sum.splits)
      have "map_of ds6 ''cloud_type'' = Some \<lparr>dims = ?profile, array = UInt8 types'\<rparr>"
        by (rule set_item_same [OF s])
      then have "map_of ds ''cloud_type'' = Some \<lparr>dims = ?profile, array = UInt8 types'\<rparr>"
        by (rule kept) simp_all
      with d t size [OF this] show ?thesis by simp
    qed
    have "map_of ds ''altitude''
       = Some \<lparr>dims = [''altitude''], array = Float \<lparr>shape = [20], data = map Fl altitude\<rparr>\<rparr>"
      using carries by (simp add: carries_altitude_def)
    moreover have "\<forall>(name, v) \<in> set ds.
           length (dims v) = length (shape_of (array v))
           \<and> (\<forall>i < length (dims v).
                 dims v ! i = ''altitude'' \<longrightarrow> shape_of (array v) ! i = 20)"
      using carries by (auto simp: carries_altitude_def well_formed_def)
    moreover have "\<forall>(target, mean) \<in> set (mean_arrays inp).
           length (shape mean) \<noteq> 3 \<longrightarrow>
             (\<exists>mean'. np_transpose [0, 2, 3, 1] mean = Inr mean'
                \<and> map_of ds target = Some \<lparr>dims = ?profile, array = Float mean'\<rparr>
                \<and> shape mean' ! 3 = 20)"
      using means by (intro ballI) (simp only: split_paired_all prod.case, rule impI)
    moreover have "\<forall>a. cloud_prob_3d inp = Some a \<longrightarrow>
           (\<exists>a'. np_transpose [0, 2, 3, 1] a = Inr a'
              \<and> map_of ds ''cloud_prob_3d'' = Some \<lparr>dims = ?profile, array = Float a'\<rparr>
              \<and> shape a' ! 3 = 20)"
      using prob by (intro allI impI)
    moreover have "\<forall>a. cloud_type inp = Some a \<longrightarrow>
           (\<exists>types types'. determine_cloud_class_nd a = Inr types
              \<and> np_transpose [0, 2, 3, 1] types = Inr types'
              \<and> map_of ds ''cloud_type'' = Some \<lparr>dims = ?profile, array = UInt8 types'\<rparr>
              \<and> shape types' ! 3 = 20)"
      using type by (intro allI impI)
    ultimately show ?thesis
      by (intro conjI)
  qed
  have returns: "well_shaped T Y X settings x inp \<longrightarrow>
          (\<exists>ds. process_input_results settings x inp = Inr ds)"
    using process_input_results_returns [of T Y X settings x inp] by (rule impI)
  show ?thesis
    by (intro conjI levels spacing returns) (intro allI impI, erule carried)
qed

text \<open>
  The assembled results of \<open>profile_example\<close> with the default settings.
\<close>

theorem altitude_levels_witness:
  "distinct (map fst (mean_arrays profile_example))
   \<and> set (map fst (mean_arrays profile_example)) \<subseteq> set REGRESSION_TARGETS
   \<and> well_shaped 1 1 1 RetrievalSettings \<lparr>shape = [1, 1, 1, 1], data = [0]\<rparr> profile_example
   \<and> (\<exists>ds. process_input_results RetrievalSettings \<lparr>shape = [1, 1, 1, 1], data = [0]\<rparr>
              profile_example = Inr ds
          \<and> map_of ds ''altitude''
              = Some \<lparr>dims = [''altitude''],
                      array = Float \<lparr>shape = [20], data = map Fl altitude\<rparr>\<rparr>
          \<and> (\<exists>mean'. map_of ds ''tiwc''
                 = Some \<lparr>dims = [''time'', ''latitude'', ''longitude'', ''altitude''],
                         array = Float mean'\<rparr>
               \<and> shape mean' ! 3 = 20)
          \<and> (\<exists>a'. map_of ds ''cloud_prob_3d''
                 = Some \<lparr>dims = [''time'', ''latitude'', ''longitude'', ''altitude''],
                         array = Float a'\<rparr>
               \<and> shape a' ! 3 = 20)
          \<and> (\<exists>types'. map_of ds ''cloud_type''
                 = Some \<lparr>dims = [''time'', ''latitude'', ''longitude'', ''altitude''],
                         array = UInt8 types'\<rparr>
               \<and> shape types' ! 3 = 20))"
proof -
  let ?x = "\<lparr>shape = [1, 1, 1, 1], data = [0 :: real]\<rparr>"
  let ?tiwc = "\<lparr>shape = [1, 20, 1, 1], data = map (\<lambda>k. Fl (real k)) [0..<20]\<rparr>"
  have keys: "distinct (map fst (mean_arrays profile_example))"
    "set (map fst (mean_arrays profile_example)) \<subseteq> set REGRESSION_TARGETS"
    by (simp_all add: profile_example_def REGRESSION_TARGETS_def)
  have shaped: "well_shaped 1 1 1 RetrievalSettings ?x profile_example"
    by (simp add: well_shaped_def profile_example_def RetrievalSettings_def)
  have tiwc: "(''tiwc'', ?tiwc) \<in> set (mean_arrays profile_example)"
    "length (shape ?tiwc) \<noteq> 3"
    by (simp_all add: profile_example_def)
  have prob: "cloud_prob_3d profile_example = Some \<lparr>shape = [1, 20, 1, 1], data = replicate 20 NaN\<rparr>"
    and type: "cloud_type profile_example
                 = Some \<lparr>shape = [1, 2, 20, 1, 1], data = replicate 20 (1 / 2) @ replicate 20 1\<rparr>"
    by (simp_all add: profile_example_def)
  note carried = altitude_levels [OF keys, of RetrievalSettings ?x 1 1 1]
  from carried shaped obtain ds
    where run: "process_input_results RetrievalSettings ?x profile_example = Inr ds"
    by (elim conjE impE exE)
  note at_ds = carried [THEN conjunct2, THEN conjunct2, THEN conjunct2, THEN conjunct2,
    THEN conjunct1, THEN spec, THEN mp, OF run]
  have "map_of ds ''altitude''
          = Some \<lparr>dims = [''altitude''], array = Float \<lparr>shape = [20], data = map Fl altitude\<rparr>\<rparr>"
    using at_ds by (elim conjE)
  moreover have "\<exists>mean'. map_of ds ''tiwc''
                 = Some \<lparr>dims = [''time'', ''latitude'', ''longitude'', ''altitude''],
                         array = Float mean'\<rparr>
               \<and> shape mean' ! 3 = 20"
    using at_ds [THEN conjunct2, THEN conjunct2, THEN conjunct1] tiwc by blast
  moreover have "\<exists>a'. map_of ds ''cloud_prob_3d''
                 = Some \<lparr>dims = [''time'', ''latitude'', ''longitude'', ''altitude''],
                         array = Float a'\<rparr>
               \<and> shape a' ! 3 = 20"
    using at_ds [THEN conjunct2, THEN conjunct2, THEN conjunct2, THEN conjunct1] prob by blast
  moreover have "\<exists>types'. map_of ds ''cloud_type''
                 = Some \<lparr>dims = [''time'', ''latitude'', ''longitude'', ''altitude''],
                         array = UInt8 types'\<rparr>
               \<and> shape types' ! 3 = 20"
    using at_ds [THEN conjunct2, THEN conjunct2, THEN conjunct2, THEN conjunct2] type by blast
  ultimately show ?thesis
    using keys shaped run by (intro conjI exI [of _ ds])
qed

text \<open>
  C6 as stated has a spacing of 500 m; the second level is 1000 m above the first.
\<close>

theorem altitude_spacing_counterexample:
  "altitude ! 1 - altitude ! 0 \<noteq> 500"
  by (simp add: altitude_def upt_rec)

section \<open>Properties of the deferred download\<close>

text \<open>
  C9. Without a working directory, neither from the construction of the remote file nor
  as the argument, \<open>get\<close> raises ValueError and makes no download attempt.
\<close>

theorem get_without_working_dir:
  assumes "working_dir self = None"
  shows "get cls self None attempts = (Inl ValueError, attempts)"
  using assms by (simp add: get_def)

theorem get_without_working_dir_witness:
  "working_dir \<lparr>filename = ''merg_2020010100_4km-pixel.nc4'', working_dir = None,
                 prefetch_task = None\<rparr> = None
   \<and> get \<lparr>download = (\<lambda>name path. None)\<rparr>
        \<lparr>filename = ''merg_2020010100_4km-pixel.nc4'', working_dir = None,
          prefetch_task = None\<rparr> None []
      = (Inl ValueError, [])"
  using get_without_working_dir
    [of "\<lparr>filename = ''merg_2020010100_4km-pixel.nc4'', working_dir = None,
           prefetch_task = None\<rparr>"
        "\<lparr>download = (\<lambda>name path. None)\<rparr>" "[]"]
  by simp

section \<open>Properties of the processing log\<close>

text \<open>
  C8. A handler without a database path: creating the table, initialising the entry,
  writing the captured text and finalizing all return without an exception and leave
  SQLite as it is, without a connection made; the constructor returns the handler.
\<close>

theorem logging_without_database:
  assumes "database_path self = None"
  shows "init_db self db = (None, db)
       \<and> init_entry now self db = (None, db)
       \<and> finish_logging self db = (None, self\<lparr>attached := False\<rparr>, db)
       \<and> finalize np results' output_file' self db = (None, db)
       \<and> init now None input_file' db
           = (Inr \<lparr>database_path = None, input_file = input_file', buffer = [],
                   attached = False\<rparr>, db)"
  using assms
  by (simp add: init_db_def init_entry_def finish_logging_def finalize_def init_def)

theorem logging_without_database_witness:
  "database_path \<lparr>database_path = None, input_file = ''a.nc'', buffer = ''x'',
                   attached = True\<rparr> = None
   \<and> finish_logging
        \<lparr>database_path = None, input_file = ''a.nc'', buffer = ''x'', attached = True\<rparr>
        \<lparr>databases = Map.empty, connections = []\<rparr>
       = (None,
          \<lparr>database_path = None, input_file = ''a.nc'', buffer = ''x'', attached = False\<rparr>,
          \<lparr>databases = Map.empty, connections = []\<rparr>)
   \<and> finalize
        \<lparr>arr_mean = (\<lambda>a. NaN), arr_min = (\<lambda>a. NaN), arr_max = (\<lambda>a. NaN),
          count_nan = (\<lambda>a :: unit. 0)\<rparr>
        Map.empty ''out.nc''
        \<lparr>database_path = None, input_file = ''a.nc'', buffer = ''x'', attached = True\<rparr>
        \<lparr>databases = Map.empty, connections = []\<rparr>
       = (None, \<lparr>databases = Map.empty, connections = []\<rparr>)"
  using logging_without_database
    [of "\<lparr>database_path = None, input_file = ''a.nc'', buffer = ''x'', attached = True\<rparr>"
        "\<lparr>databases = Map.empty, connections = []\<rparr>" 0
        "\<lparr>arr_mean = (\<lambda>a. NaN), arr_min = (\<lambda>a. NaN), arr_max = (\<lambda>a. NaN),
          count_nan = (\<lambda>a :: unit. 0)\<rparr>"
        Map.empty "''out.nc''" "''a.nc''"]
  by simp

text \<open>
  C7. With a row for the input file: \<open>finalize\<close> returns without an exception, a second
  \<open>finalize\<close> leaves the table as if it had been the only one (the last write wins, and
  repeating the same call changes nothing), and the row then has the success flag, the
  output file and the statistics of the results, with its log and date as before.
  \<open>finish_logging\<close> replaces the log by the stored log followed by the buffer; a later
  handler for the same file (\<open>again\<close>) finds the row with that log, and its
  \<open>finish_logging\<close> appends in turn.
\<close>

theorem finalize_last_write_wins:
  assumes "database_path self = Some path"
    and "row_of db path (input_file self) = Some r"
    and "database_path again = Some path"
    and "input_file again = input_file self"
  shows "fst (finalize np res1 out1 self db) = None
       \<and> fst (finalize np res2 out2 self (snd (finalize np res1 out1 self db))) = None
       \<and> databases (snd (finalize np res2 out2 self (snd (finalize np res1 out1 self db))))
           = databases (snd (finalize np res2 out2 self db))
       \<and> databases (snd (finalize np res1 out1 self (snd (finalize np res1 out1 self db))))
           = databases (snd (finalize np res1 out1 self db))
       \<and> (\<exists>r'. row_of (snd (finalize np res1 out1 self db)) path (input_file self) = Some r'
              \<and> success r' \<and> output_file r' = out1 \<and> log r' = log r \<and> date r' = date r
              \<and> (tiwp_min r', tiwp_max r', tiwp_mean r', n_missing r')
                  = (case res1 ''tiwp'' of
                       None \<Rightarrow> (NaN, NaN, NaN, - 1)
                     | Some a \<Rightarrow> (arr_min np a, arr_max np a, arr_mean np a, count_nan np a)))
       \<and> fst (finish_logging self db) = None
       \<and> row_of (snd (snd (finish_logging self db))) path (input_file self)
           = Some (r\<lparr>log := log r @ buffer self\<rparr>)
       \<and> row_of (snd (init_entry now again (snd (snd (finish_logging self db)))))
             path (input_file self)
           = Some (r\<lparr>log := log r @ buffer self\<rparr>)
       \<and> fst (finish_logging again (snd (snd (finish_logging self db)))) = None
       \<and> row_of (snd (snd (finish_logging again (snd (snd (finish_logging self db))))))
             path (input_file self)
           = Some (r\<lparr>log := log r @ buffer self @ buffer again\<rparr>)"
  using assms
  by (auto simp: finalize_def finish_logging_def init_entry_def row_of_def connect_def Let_def
      split: option.splits)

theorem finalize_last_write_wins_witness:
  "database_path \<lparr>database_path = Some ''ccic.db'', input_file = ''a.nc'', buffer = ''two'',
                   attached = True\<rparr> = Some ''ccic.db''
   \<and> row_of \<lparr>databases = [''ccic.db'' \<mapsto> [''a.nc'' \<mapsto> new_row 7\<lparr>log := ''one''\<rparr>]],
              connections = []\<rparr> ''ccic.db'' ''a.nc''
       = Some (new_row 7\<lparr>log := ''one''\<rparr>)
   \<and> row_of (snd (snd (finish_logging
         \<lparr>database_path = Some ''ccic.db'', input_file = ''a.nc'', buffer = ''three'',
           attached = True\<rparr>
         (snd (snd (finish_logging
            \<lparr>database_path = Some ''ccic.db'', input_file = ''a.nc'', buffer = ''two'',
              attached = True\<rparr>
            \<lparr>databases = [''ccic.db'' \<mapsto> [''a.nc'' \<mapsto> new_row 7\<lparr>log := ''one''\<rparr>]],
              connections = []\<rparr>)))))) ''ccic.db'' ''a.nc''
       = Some (new_row 7\<lparr>log := ''onetwothree''\<rparr>)
   \<and> row_of (snd (finalize
         \<lparr>arr_mean = (\<lambda>a. Fl 2), arr_min = (\<lambda>a. Fl 1), arr_max = (\<lambda>a. Fl 3),
           count_nan = (\<lambda>a :: unit. 4)\<rparr>
         [''tiwp'' \<mapsto> ()] ''out.nc''
         \<lparr>database_path = Some ''ccic.db'', input_file = ''a.nc'', buffer = ''two'',
           attached = True\<rparr>
         \<lparr>databases = [''ccic.db'' \<mapsto> [''a.nc'' \<mapsto> new_row 7\<lparr>log := ''one''\<rparr>]],
           connections = []\<rparr>)) ''ccic.db'' ''a.nc''
       = Some \<lparr>date = 7, success = True, output_file = ''out.nc'', tiwp_min = Fl 1,
               tiwp_max = Fl 3, tiwp_mean = Fl 2, n_missing = 4, log = ''one''\<rparr>"
  using finalize_last_write_wins
    [of "\<lparr>database_path = Some ''ccic.db'', input_file = ''a.nc'', buffer = ''two'',
           attached = True\<rparr>"
        "''ccic.db''"
        "\<lparr>databases = [''ccic.db'' \<mapsto> [''a.nc'' \<mapsto> new_row 7\<lparr>log := ''one''\<rparr>]],
          connections = []\<rparr>"
        "new_row 7\<lparr>log := ''one''\<rparr>"
        "\<lparr>database_path = Some ''ccic.db'', input_file = ''a.nc'', buffer = ''three'',
           attached = True\<rparr>"
        "\<lparr>arr_mean = (\<lambda>a. Fl 2), arr_min = (\<lambda>a. Fl 1), arr_max = (\<lambda>a. Fl 3),
           count_nan = (\<lambda>a :: unit. 4)\<rparr>"
        "[''tiwp'' \<mapsto> ()]" "''out.nc''" "[''tiwp'' \<mapsto> ()]" "''out.nc''" 9]
  by (simp add: row_of_def new_row_def finalize_def Let_def connect_def)

section \<open>Properties of the masking of regression targets\<close>

lemma set_masked_nth:
  assumes "set_masked v m planes = Inr planes'"
    and "k < length planes" and "r < length m" and "c < length (m ! r)"
  shows "planes' ! k ! r ! c = (if m ! r ! c then v else planes ! k ! r ! c)"
proof -
  have all: "list_all (same_shape m) planes" and eq:
    "planes' = map (\<lambda>plane. map2 (map2 (\<lambda>b x. if b then v else x)) m plane) planes"
    using assms(1) by (auto simp: set_masked_def split: if_splits)
  have "same_shape m (planes ! k)"
    using all assms(2) by (simp add: list_all_length)
  then have lens: "map length m = map length (planes ! k)"
    by (simp add: same_shape_def)
  then have len: "length (planes ! k) = length m"
    by (metis length_map)
  have "length (planes ! k ! r) = length (m ! r)"
    using lens assms(3) len by (metis nth_map)
  then show ?thesis
    using assms(2-4) len by (simp add: eq)
qed

lemma set_masked_length:
  "set_masked v m planes = Inr planes' \<Longrightarrow> length planes' = length planes"
  by (auto simp: set_masked_def split: if_splits)

lemma mask_invalid_length:
  "mask_invalid v invalid a = Inr a' \<Longrightarrow> length a' = length a"
  by (induction v invalid a arbitrary: a' rule: mask_invalid.induct)
    (auto split: sum.splits)

lemma mask_invalid_nth:
  assumes "mask_invalid v invalid a = Inr a'"
    and "ind < length invalid" and "k < length (a ! ind)"
    and "r < length (invalid ! ind)" and "c < length (invalid ! ind ! r)"
  shows "a' ! ind ! k ! r ! c = (if invalid ! ind ! r ! c then v else a ! ind ! k ! r ! c)"
  using assms
proof (induction v invalid a arbitrary: a' ind rule: mask_invalid.induct)
  case (1 v a)
  then show ?case by simp
next
  case (2 v m ms)
  then show ?case by simp
next
  case (3 v m ms x xs)
  from "3.prems"(1) obtain x' xs' where x': "set_masked v m x = Inr x'"
    and xs': "mask_invalid v ms xs = Inr xs'" and a': "a' = x' # xs'"
    by (auto split: sum.splits)
  show ?case
  proof (cases ind)
    case 0
    with "3.prems" x' a' show ?thesis
      by (simp add: set_masked_nth)
  next
    case (Suc j)
    with "3.prems" x' xs' a' "3.IH" [OF x' xs', of j] show ?thesis
      by simp
  qed
qed

lemma in_SCALAR_TARGETS: "target \<in> set SCALAR_TARGETS \<Longrightarrow> THRESHOLDS target = Some (1 / 1000)"
  by (auto simp: SCALAR_TARGETS_def THRESHOLDS_def)

lemma mask_invalid_fits:
  "fits invalid a \<Longrightarrow> \<exists>a'. mask_invalid v invalid a = Inr a'"
proof (induction v invalid a rule: mask_invalid.induct)
  case (1 v a)
  then show ?case by simp
next
  case (2 v m ms)
  then show ?case by (simp add: fits_def)
next
  case (3 v m ms x xs)
  then show ?case by (auto simp: fits_def set_masked_def)
qed

lemma append_last_rows:
  "d target = Some tile_rows \<Longrightarrow> tile_rows \<noteq> [] \<Longrightarrow>
     append_last target x d = Inr (d(target \<mapsto> butlast tile_rows @ [last tile_rows @ [x]]))"
  by (simp add: append_last_def)

text \<open>
  C4. For a scalar target whose prediction is there, with a mask that fits the three
  arrays and with a last row in each result dictionary, the function returns, having
  appended the posterior mean, the quantiles at \<open>0.5 (1 - c)\<close> and \<open>1 - 0.5 (1 - c)\<close> of the
  confidence level \<open>c\<close> of the settings (0.05 and 0.95 by default) and the probability
  of exceeding 0.001, each with not-a-number at the pixels of the invalid mask of its
  batch element and the predictor's value elsewhere.
\<close>

theorem scalar_target_statistics:
  assumes "target \<in> set SCALAR_TARGETS"
    and "y_pred target = Some y"
    and "fits invalid (posterior_mean net y target)"
    and "fits invalid
           (posterior_quantiles net y
              [1 / 2 * (1 - confidence_interval settings),
               1 - 1 / 2 * (1 - confidence_interval settings)] target)"
    and "fits invalid (probability_larger_than net y (1 / 1000) target)"
    and "means res target = Some mean_rows" and "mean_rows \<noteq> []"
    and "conf_ints res target = Some conf_int_rows" and "conf_int_rows \<noteq> []"
    and "p_non_zeros res target = Some p_non_zero_rows" and "p_non_zero_rows \<noteq> []"
  shows "\<exists>mean conf_int p_non_zero.
           mask_invalid NaN invalid (posterior_mean net y target) = Inr mean
         \<and> mask_invalid NaN invalid
             (posterior_quantiles net y
                [1 / 2 * (1 - confidence_interval settings),
                 1 - 1 / 2 * (1 - confidence_interval settings)] target) = Inr conf_int
         \<and> mask_invalid NaN invalid (probability_larger_than net y (1 / 1000) target)
             = Inr p_non_zero
         \<and> process_regression_target settings net y_pred invalid target res
             = Inr \<lparr>means = (means res)(target \<mapsto> butlast mean_rows @ [last mean_rows @ [mean]]),
                    conf_ints = (conf_ints res)(target \<mapsto>
                      butlast conf_int_rows @ [last conf_int_rows @ [conf_int]]),
                    p_non_zeros = (p_non_zeros res)(target \<mapsto>
                      butlast p_non_zero_rows @ [last p_non_zero_rows @ [p_non_zero]])\<rparr>
         \<and> [1 / 2 * (1 - confidence_interval RetrievalSettings),
             1 - 1 / 2 * (1 - confidence_interval RetrievalSettings)] = [1 / 20, 19 / 20]
         \<and> (\<forall>ind k r c. ind < length invalid \<and> r < length (invalid ! ind)
                \<and> c < length (invalid ! ind ! r) \<longrightarrow>
              (k < length (posterior_mean net y target ! ind) \<longrightarrow>
                 mean ! ind ! k ! r ! c
                   = (if invalid ! ind ! r ! c then NaN
                      else posterior_mean net y target ! ind ! k ! r ! c))
            \<and> (k < length (posterior_quantiles net y
                     [1 / 2 * (1 - confidence_interval settings),
                      1 - 1 / 2 * (1 - confidence_interval settings)] target ! ind) \<longrightarrow>
                 conf_int ! ind ! k ! r ! c
                   = (if invalid ! ind ! r ! c then NaN
                      else posterior_quantiles net y
                             [1 / 2 * (1 - confidence_interval settings),
                              1 - 1 / 2 * (1 - confidence_interval settings)] target
                           ! ind ! k ! r ! c))
            \<and> (k < length (probability_larger_than net y (1 / 1000) target ! ind) \<longrightarrow>
                 p_non_zero ! ind ! k ! r ! c
                   = (if invalid ! ind ! r ! c then NaN
                      else probability_larger_than net y (1 / 1000) target ! ind ! k ! r ! c)))"
proof -
  let ?quantiles = "[1 / 2 * (1 - confidence_interval settings),
                     1 - 1 / 2 * (1 - confidence_interval settings)]"
  obtain mean where mean: "mask_invalid NaN invalid (posterior_mean net y target) = Inr mean"
    using mask_invalid_fits [OF assms(3)] by blast
  obtain conf_int where conf_int:
    "mask_invalid NaN invalid (posterior_quantiles net y ?quantiles target) = Inr conf_int"
    using mask_invalid_fits [OF assms(4)] by blast
  obtain p_non_zero where p_non_zero:
    "mask_invalid NaN invalid (probability_larger_than net y (1 / 1000) target) = Inr p_non_zero"
    using mask_invalid_fits [OF assms(5)] by blast
  have run: "process_regression_target settings net y_pred invalid target res
             = Inr \<lparr>means = (means res)(target \<mapsto> butlast mean_rows @ [last mean_rows @ [mean]]),
                    conf_ints = (conf_ints res)(target \<mapsto>
                      butlast conf_int_rows @ [last conf_int_rows @ [conf_int]]),
                    p_non_zeros = (p_non_zeros res)(target \<mapsto>
                      butlast p_non_zero_rows @ [last p_non_zero_rows @ [p_non_zero]])\<rparr>"
    using assms(1,2) mean conf_int p_non_zero in_SCALAR_TARGETS [OF assms(1)]
      append_last_rows [of "means res" target mean_rows mean, OF assms(6,7)]
      append_last_rows [of "conf_ints res" target conf_int_rows conf_int, OF assms(8,9)]
      append_last_rows [of "p_non_zeros res" target p_non_zero_rows p_non_zero, OF assms(10,11)]
    by (simp add: process_regression_target_def bind_result_def lookup_def Let_def)
  have dflt: "[1 / 2 * (1 - confidence_interval RetrievalSettings),
               1 - 1 / 2 * (1 - confidence_interval RetrievalSettings)] = [1 / 20, 19 / 20]"
    by (simp add: RetrievalSettings_def)
  show ?thesis
    using mean conf_int p_non_zero run dflt mask_invalid_nth [OF mean]
      mask_invalid_nth [OF conf_int] mask_invalid_nth [OF p_non_zero]
    by (intro exI [of _ mean] exI [of _ conf_int] exI [of _ p_non_zero]) simp
qed

theorem scalar_target_statistics_witness:
  "''tiwp'' \<in> set SCALAR_TARGETS
   \<and> fits [[[False, True]]] [[[[Fl 1, Fl 2]]]]
   \<and> fits [[[False, True]]] [[[[Fl (1 / 20), Fl 3]], [[Fl (19 / 20), Fl 4]]]]
   \<and> process_regression_target RetrievalSettings
        \<lparr>posterior_mean = (\<lambda>y key. [[[[Fl 1, Fl 2]]]]),
          posterior_quantiles = (\<lambda>y qs key. [[[[Fl (qs ! 0), Fl 3]], [[Fl (qs ! 1), Fl 4]]]]),
          probability_larger_than = (\<lambda>y t key. [[[[Fl t, Fl 5]]]])\<rparr>
        [''tiwp'' \<mapsto> ()] [[[False, True]]] ''tiwp''
        \<lparr>means = [''tiwp'' \<mapsto> [[]]], conf_ints = [''tiwp'' \<mapsto> [[]]],
          p_non_zeros = [''tiwp'' \<mapsto> [[]]]\<rparr>
      = Inr \<lparr>means = [''tiwp'' \<mapsto> [[ [[[[Fl 1, NaN]]]] ]]],
             conf_ints = [''tiwp'' \<mapsto> [[ [[[[Fl (1 / 20), NaN]], [[Fl (19 / 20), NaN]]]] ]]],
             p_non_zeros = [''tiwp'' \<mapsto> [[ [[[[Fl (1 / 1000), NaN]]]] ]]]\<rparr>"
  using scalar_target_statistics
    [of "''tiwp''" "[''tiwp'' \<mapsto> ()]" "()" "[[[False, True]]]"
        "\<lparr>posterior_mean = (\<lambda>y key. [[[[Fl 1, Fl 2]]]]),
          posterior_quantiles = (\<lambda>y qs key. [[[[Fl (qs ! 0), Fl 3]], [[Fl (qs ! 1), Fl 4]]]]),
          probability_larger_than = (\<lambda>y t key. [[[[Fl t, Fl 5]]]])\<rparr>"
        RetrievalSettings
        "\<lparr>means = [''tiwp'' \<mapsto> [[]]], conf_ints = [''tiwp'' \<mapsto> [[]]],
          p_non_zeros = [''tiwp'' \<mapsto> [[]]]\<rparr>"
        "[[]]" "[[]]" "[[]]"]
  by (simp add: SCALAR_TARGETS_def fits_def same_shape_def RetrievalSettings_def
      set_masked_def)

section \<open>Properties of the cloud-type masking\<close>

text \<open>
  C5, on a tile of one row and two pixels with three classes, the second pixel invalid:
  the masking sets the three class probabilities of that pixel to -1, and the class
  selection then gives it class 1, a cloud class, as it would a pixel whose first
  remaining class is the most probable.
\<close>

theorem masked_cloud_type_pixel:
  "mask_cloud_type [[[False, True]]] [[[[7 / 10, 2 / 10]], [[1 / 10, 5 / 10]], [[2 / 10, 3 / 10]]]]
     = Inr [[[[7 / 10, - 1]], [[1 / 10, - 1]], [[2 / 10, - 1]]]]
   \<and> cloud_type_of [[[7 / 10, - 1]], [[1 / 10, - 1]], [[2 / 10, - 1]]] = Inr [0, 1]"
  by (simp add: mask_cloud_type_def set_masked_def same_shape_def cloud_type_of_def
      determine_cloud_class_def column_def Let_def)

section \<open>Properties of the pipeline\<close>

lemma download_step_eq:
  "download_step ext task s =
     s\<lparr>processing_queue := processing_queue s @ (if forwarded ext task then [Some task] else []),
       logged := logged s @ download_raised ext task,
       calls := calls s @ download_calls ext task\<rparr>"
  by (cases "has_data ext task"; cases "input_download_data ext task"; cases "queue_put ext task")
    (simp_all add: download_step_def try_download_def called_def Let_def)

lemma download_data_items:
  "download_data ext (map Some items @ None # rest) s =
     Some (s\<lparr>processing_queue :=
               processing_queue s @ map Some (filter (forwarded ext) items) @ [None],
             logged := logged s @ concat (map (download_raised ext) items),
             calls := calls s @ concat (map (download_calls ext) items) @ [Put None]\<rparr>)"
proof (induction items arbitrary: s)
  case Nil
  then show ?case by (simp add: called_def)
next
  case (Cons t items)
  show ?case
    unfolding list.map append_Cons download_data.simps Cons.IH download_step_eq
    by simp
qed

lemma download_data_no_sentinel:
  "download_data ext (map Some items) s = None"
  by (induction items arbitrary: s) simp_all

lemma process_step_eq:
  "process_step ext task s =
     s\<lparr>logged := logged s @ process_raised ext task,
       calls := calls s @ process_calls ext task\<rparr>"
  by (cases "radar_attributes ext task"; cases "process_day ext task")
    (simp_all add: process_step_def called_def Let_def)

lemma process_files_items:
  "process_files ext (map Some items @ None # rest) s =
     Some (s\<lparr>logged := logged s @ concat (map (process_raised ext) items),
             calls := calls s @ concat (map (process_calls ext) items)\<rparr>)"
proof (induction items arbitrary: s)
  case Nil
  then show ?case by simp
next
  case (Cons t items)
  show ?case
    unfolding list.map append_Cons process_files.simps Cons.IH process_step_eq
    by simp
qed

lemma count_list_Some_None: "count_list (map Some xs) None = 0"
  by (induction xs) simp_all

lemma count_list_append: "count_list (xs @ ys) x = count_list xs x + count_list ys x"
  by (induction xs) simp_all

lemma download_raised_or_forwarded:
  "length (concat (map (download_raised ext) items)) + length (filter (forwarded ext) items)
     = length items"
proof (induction items)
  case Nil
  then show ?case by simp
next
  case (Cons t items)
  have "length (download_raised ext t) + (if forwarded ext t then 1 else 0) = 1"
    by (cases "has_data ext t"; cases "input_download_data ext t"; cases "queue_put ext t")
      auto
  with Cons show ?case by auto
qed

text \<open>
  C2. On a download queue of \<open>N\<close> work items and the sentinel, both stages return. The
  download stage makes the calls of each item in turn (the check \<open>has_data\<close>, the
  download when the check returned false, the \<open>put\<close> when neither raised), logs the
  exception of the first call that raises and goes on, and puts on the processing queue
  the items for which no call raised, in order, then one \<open>None\<close>. The process stage
  evaluates the radar attributes and calls the per-day retrieval for each of these, logs
  what raises and goes on, and returns at the \<open>None\<close>. Each item is either logged by the
  download stage or reaches the process stage. Without the sentinel the download stage
  does not return.
\<close>

theorem pipeline_terminates:
  "\<exists>d p. pipeline ext (map Some items @ [None]) = Some (d, p)
     \<and> download_data ext (map Some items @ [None]) idle = Some d
     \<and> process_files ext (processing_queue d) idle = Some p
     \<and> processing_queue d = map Some (filter (forwarded ext) items) @ [None]
     \<and> count_list (processing_queue d) None = 1
     \<and> logged d = concat (map (download_raised ext) items)
     \<and> calls d = concat (map (download_calls ext) items) @ [Put None]
     \<and> calls p = concat (map (process_calls ext) (filter (forwarded ext) items))
     \<and> logged p = concat (map (process_raised ext) (filter (forwarded ext) items))
     \<and> processing_queue p = []
     \<and> length (logged d) + length (filter (forwarded ext) items) = length items
     \<and> download_data ext (map Some items) idle = None"
proof -
  let ?ok = "filter (forwarded ext) items"
  let ?d = "idle\<lparr>processing_queue := map Some ?ok @ [None],
                logged := concat (map (download_raised ext) items),
                calls := concat (map (download_calls ext) items) @ [Put None]\<rparr> :: 'a stage"
  let ?p = "idle\<lparr>logged := concat (map (process_raised ext) ?ok),
                calls := concat (map (process_calls ext) ?ok)\<rparr> :: 'a stage"
  have d: "download_data ext (map Some items @ [None]) idle = Some ?d"
    unfolding download_data_items [of ext items "[]" idle] by (simp add: idle_def)
  have p: "process_files ext (map Some ?ok @ [None]) idle = Some ?p"
    unfolding process_files_items [of ext ?ok "[]" idle] by (simp add: idle_def)
  have pq: "processing_queue ?d = map Some ?ok @ [None]" by simp
  have p': "process_files ext (processing_queue ?d) idle = Some ?p"
    unfolding pq by (rule p)
  have run: "pipeline ext (map Some items @ [None]) = Some (?d, ?p)"
    unfolding pipeline_def d option.case p' ..
  have cnt: "count_list (processing_queue ?d) None = 1"
    unfolding pq by (simp add: count_list_append count_list_Some_None)
  have len: "length (logged ?d) + length ?ok = length items"
    using download_raised_or_forwarded [of ext items] by simp
  have d_logged: "logged ?d = concat (map (download_raised ext) items)" by simp
  have d_calls: "calls ?d = concat (map (download_calls ext) items) @ [Put None]" by simp
  have p_calls: "calls ?p = concat (map (process_calls ext) ?ok)" by simp
  have p_logged: "logged ?p = concat (map (process_raised ext) ?ok)" by simp
  have p_queue: "processing_queue ?p = []" by (simp add: idle_def)
  show ?thesis
    using run d p' pq cnt d_logged d_calls p_calls p_logged p_queue len
      download_data_no_sentinel [of ext items idle]
    by (intro exI [of _ ?d] exI [of _ ?p]) blast
qed

text \<open>
  Three items: the check of the second raises and the radar attributes of the third
  raise.
\<close>

theorem pipeline_terminates_witness:
  "pipeline
     \<lparr>has_data = (\<lambda>d :: nat. if d = 2 then Inl ValueError else Inr (d = 1)),
       input_download_data = (\<lambda>d. Inr ()),
       queue_put = (\<lambda>d. Inr ()),
       radar_attributes = (\<lambda>d. if d = 3 then Inl KeyError else Inr ()),
       process_day = (\<lambda>d. Inr ())\<rparr>
     (map Some [1, 2, 3] @ [None])
   = Some (\<lparr>processing_queue = [Some 1, Some 3, None], logged = [ValueError],
            calls = [HasData 1, Put (Some 1), HasData 2, HasData 3, DownloadData 3,
                     Put (Some 3), Put None]\<rparr>,
           \<lparr>processing_queue = [], logged = [KeyError],
            calls = [RadarAttributes 1, ProcessDay 1, RadarAttributes 3]\<rparr>)"
proof -
  let ?ext = "\<lparr>has_data = (\<lambda>d :: nat. if d = 2 then Inl ValueError else Inr (d = 1)),
       input_download_data = (\<lambda>d. Inr ()),
       queue_put = (\<lambda>d. Inr ()),
       radar_attributes = (\<lambda>d. if d = 3 then Inl KeyError else Inr ()),
       process_day = (\<lambda>d. Inr ())\<rparr>"
  from pipeline_terminates [of ?ext "[1, 2, 3]"]
  obtain d p where run: "pipeline ?ext (map Some [1, 2, 3] @ [None]) = Some (d, p)"
    and d': "processing_queue d = map Some (filter (forwarded ?ext) [1, 2, 3]) @ [None]"
      "logged d = concat (map (download_raised ?ext) [1, 2, 3])"
      "calls d = concat (map (download_calls ?ext) [1, 2, 3]) @ [Put None]"
    and p': "processing_queue p = []"
      "logged p = concat (map (process_raised ?ext) (filter (forwarded ?ext) [1, 2, 3]))"
      "calls p = concat (map (process_calls ?ext) (filter (forwarded ?ext) [1, 2, 3]))"
    by blast
  have d: "processing_queue d = [Some 1, Some 3, None]" "logged d = [ValueError]"
      "calls d = [HasData 1, Put (Some 1), HasData 2, HasData 3, DownloadData 3,
                  Put (Some 3), Put None]"
    using d' by simp_all
  have p: "processing_queue p = []" "logged p = [KeyError]"
      "calls p = [RadarAttributes 1, ProcessDay 1, RadarAttributes 3]"
    using p' by simp_all
  have dd: "d = \<lparr>processing_queue = [Some 1, Some 3, None], logged = [ValueError],
            calls = [HasData 1, Put (Some 1), HasData 2, HasData 3, DownloadData 3,
                     Put (Some 3), Put None]\<rparr>"
    using d by (cases d) simp
  have pp: "p = \<lparr>processing_queue = [], logged = [KeyError],
            calls = [RadarAttributes 1, ProcessDay 1, RadarAttributes 3]\<rparr>"
    using p by (cases p) simp
  show ?thesis
    by (rule run [unfolded dd pp])
qed

lemma count_list_concat_HasData:
  "count_list (concat (map (download_calls ext) items)) (HasData task) = count_list items task"
  by (induction items) (auto simp: count_list_append)

lemma count_list_concat_DownloadData:
  "count_list (concat (map (download_calls ext) items)) (DownloadData task) \<le> count_list items task"
  by (induction items) (auto simp: count_list_append)

lemma count_list_concat_Put:
  "count_list (concat (map (download_calls ext) items)) (Put (Some task)) \<le> count_list items task"
  by (induction items) (auto simp: count_list_append)

text \<open>
  C10. A work item for which the check raises, or the check returns false and the
  download raises, or these return and the \<open>put\<close> raises: the iteration logs the
  exception, leaves the processing queue as it is, makes no call after the one that
  raised and goes on with the rest of the download queue. Over a whole run the item is
  not on the processing queue, the exception is logged for each occurrence of the item,
  \<open>has_data\<close> is called for it once per occurrence on the download queue, and
  \<open>download_data\<close> and \<open>put\<close> at most as often.
\<close>

theorem failed_download_is_skipped:
  assumes "has_data ext task = Inl exc
         \<or> has_data ext task = Inr False \<and> input_download_data ext task = Inl exc
         \<or> (has_data ext task = Inr True
              \<or> has_data ext task = Inr False \<and> input_download_data ext task = Inr ())
            \<and> queue_put ext task = Inl exc"
  shows "download_data ext (Some task # download_queue) s
           = download_data ext download_queue
               (s\<lparr>logged := logged s @ [exc],
                  calls := calls s @ HasData task
                    # (if has_data ext task = Inr False then [DownloadData task] else [])
                    @ (if has_data ext task = Inr True
                          \<or> has_data ext task = Inr False
                             \<and> input_download_data ext task = Inr ()
                       then [Put (Some task)] else [])\<rparr>)
       \<and> (\<exists>d. download_data ext (map Some items @ [None]) idle = Some d
              \<and> Some task \<notin> set (processing_queue d)
              \<and> count_list (calls d) (HasData task) = count_list items task
              \<and> count_list (calls d) (DownloadData task) \<le> count_list items task
              \<and> count_list (calls d) (Put (Some task)) \<le> count_list items task
              \<and> count_list (logged d) exc \<ge> count_list items task)"
proof -
  have raised: "download_raised ext task = [exc]" and skipped: "\<not> forwarded ext task"
    using assms by auto
  let ?d = "idle\<lparr>processing_queue := map Some (filter (forwarded ext) items) @ [None],
                logged := concat (map (download_raised ext) items),
                calls := concat (map (download_calls ext) items) @ [Put None]\<rparr> :: 'a stage"
  have "download_step ext task s
          = s\<lparr>logged := logged s @ [exc], calls := calls s @ download_calls ext task\<rparr>"
    unfolding download_step_eq raised using skipped by simp
  then have step: "download_data ext (Some task # download_queue) s
           = download_data ext download_queue
               (s\<lparr>logged := logged s @ [exc], calls := calls s @ download_calls ext task\<rparr>)"
    by simp
  have d: "download_data ext (map Some items @ [None]) idle = Some ?d"
    unfolding download_data_items [of ext items "[]" idle] by (simp add: idle_def)
  have notin: "Some task \<notin> set (processing_queue ?d)"
    using skipped by auto
  have logged: "count_list (concat (map (download_raised ext) items)) exc \<ge> count_list items task"
  proof (induction items)
    case Nil
    then show ?case by simp
  next
    case (Cons t items)
    show ?case
    proof (cases "t = task")
      case True
      then show ?thesis
        using Cons raised by (simp add: count_list_append)
    next
      case False
      then show ?thesis
        using Cons by (simp add: count_list_append)
    qed
  qed
  have counts: "count_list (calls ?d) (HasData task) = count_list items task"
    "count_list (calls ?d) (DownloadData task) \<le> count_list items task"
    "count_list (calls ?d) (Put (Some task)) \<le> count_list items task"
    using count_list_concat_HasData [of ext items task]
      count_list_concat_DownloadData [of ext items task]
      count_list_concat_Put [of ext items task]
    by (simp_all add: count_list_append)
  have logged': "count_list (logged ?d) exc \<ge> count_list items task"
    using logged by simp
  show ?thesis
    using step d notin counts logged'
    by (intro conjI exI [of _ ?d]) blast+
qed

text \<open>
  Two items without data: the download of the first raises.
\<close>

theorem failed_download_is_skipped_witness:
  "has_data
     \<lparr>has_data = (\<lambda>d :: nat. Inr False),
       input_download_data = (\<lambda>d. if d = 2 then Inl (OtherException ''timeout'') else Inr ()),
       queue_put = (\<lambda>d. Inr ()), radar_attributes = (\<lambda>d. Inr ()),
       process_day = (\<lambda>d. Inr ())\<rparr> 2 = Inr False
   \<and> input_download_data
     \<lparr>has_data = (\<lambda>d :: nat. Inr False),
       input_download_data = (\<lambda>d. if d = 2 then Inl (OtherException ''timeout'') else Inr ()),
       queue_put = (\<lambda>d. Inr ()), radar_attributes = (\<lambda>d. Inr ()),
       process_day = (\<lambda>d. Inr ())\<rparr> 2 = Inl (OtherException ''timeout'')
   \<and> download_data
       \<lparr>has_data = (\<lambda>d :: nat. Inr False),
         input_download_data = (\<lambda>d. if d = 2 then Inl (OtherException ''timeout'') else Inr ()),
         queue_put = (\<lambda>d. Inr ()), radar_attributes = (\<lambda>d. Inr ()),
         process_day = (\<lambda>d. Inr ())\<rparr>
       [Some 2, Some 3, None] idle
     = download_data
       \<lparr>has_data = (\<lambda>d :: nat. Inr False),
         input_download_data = (\<lambda>d. if d = 2 then Inl (OtherException ''timeout'') else Inr ()),
         queue_put = (\<lambda>d. Inr ()), radar_attributes = (\<lambda>d. Inr ()),
         process_day = (\<lambda>d. Inr ())\<rparr>
       [Some 3, None]
       \<lparr>processing_queue = [], logged = [OtherException ''timeout''],
        calls = [HasData 2, DownloadData 2]\<rparr>"
  using failed_download_is_skipped
    [of "\<lparr>has_data = (\<lambda>d :: nat. Inr False),
           input_download_data = (\<lambda>d. if d = 2 then Inl (OtherException ''timeout'') else Inr ()),
           queue_put = (\<lambda>d. Inr ()), radar_attributes = (\<lambda>d. Inr ()),
           process_day = (\<lambda>d. Inr ())\<rparr>"
        2 "OtherException ''timeout''" "[Some 3, None]" idle "[2, 3]"]
  by (simp add: idle_def)

section \<open>Properties of the invalid mask\<close>

lemma rect_nth: "rect h w img \<Longrightarrow> r < h \<Longrightarrow> length (img ! r) = w"
  by (simp add: rect_def list_all_length)

lemma rect_length: "rect h w img \<Longrightarrow> length img = h"
  by (simp add: rect_def)

lemma rectI: "length img = h \<Longrightarrow> (\<And>r. r < h \<Longrightarrow> length (img ! r) = w) \<Longrightarrow> rect h w img"
  by (simp add: rect_def list_all_length)

lemma pixel_rect:
  "rect h w img \<Longrightarrow>
     pixel img r c \<longleftrightarrow> 0 \<le> r \<and> r < int h \<and> 0 \<le> c \<and> c < int w \<and> img ! nat r ! nat c"
  by (auto simp: pixel_def rect_def list_all_length)

lemma rect_dilation1: "rect h w img \<Longrightarrow> rect h w (binary_dilation1 img)"
  by (rule rectI) (simp_all add: binary_dilation1_def rect_length rect_nth)

lemma rect_erosion1: "rect h w img \<Longrightarrow> rect h w (binary_erosion1 img)"
  by (rule rectI) (simp_all add: binary_erosion1_def rect_length rect_nth)

lemma pixel_dilation1:
  assumes "rect h w img"
  shows "pixel (binary_dilation1 img) r c \<longleftrightarrow>
           0 \<le> r \<and> r < int h \<and> 0 \<le> c \<and> c < int w
           \<and> (pixel img r c \<or> pixel img (r - 1) c \<or> pixel img (r + 1) c
               \<or> pixel img r (c - 1) \<or> pixel img r (c + 1))"
proof (cases "0 \<le> r \<and> r < int h \<and> 0 \<le> c \<and> c < int w")
  case True
  then have r: "nat r < h" and c: "nat c < w" by auto
  have "binary_dilation1 img ! nat r ! nat c
          = (pixel img r c \<or> pixel img (r - 1) c \<or> pixel img (r + 1) c
               \<or> pixel img r (c - 1) \<or> pixel img r (c + 1))"
    using r c True assms by (simp add: binary_dilation1_def rect_length rect_nth)
  then show ?thesis
    using True by (simp add: pixel_rect [OF rect_dilation1 [OF assms]])
next
  case False
  then show ?thesis
    by (auto simp: pixel_rect [OF rect_dilation1 [OF assms]])
qed

lemma pixel_erosion1:
  assumes "rect h w img"
  shows "pixel (binary_erosion1 img) r c \<longleftrightarrow>
           pixel img r c \<and> pixel img (r - 1) c \<and> pixel img (r + 1) c
           \<and> pixel img r (c - 1) \<and> pixel img r (c + 1)"
proof (cases "0 \<le> r \<and> r < int h \<and> 0 \<le> c \<and> c < int w")
  case True
  then have r: "nat r < h" and c: "nat c < w" by auto
  have "binary_erosion1 img ! nat r ! nat c
          = (pixel img r c \<and> pixel img (r - 1) c \<and> pixel img (r + 1) c
               \<and> pixel img r (c - 1) \<and> pixel img r (c + 1))"
    using r c True assms by (simp add: binary_erosion1_def rect_length rect_nth)
  then show ?thesis
    using True by (simp add: pixel_rect [OF rect_erosion1 [OF assms]])
next
  case False
  then show ?thesis
    by (auto simp: pixel_rect [OF rect_erosion1 [OF assms]] pixel_rect [OF assms])
qed

lemma rect_dilation: "rect h w img \<Longrightarrow> rect h w (binary_dilation n img)"
  by (induction n) (simp_all add: binary_dilation_def rect_dilation1)

lemma rect_erosion: "rect h w img \<Longrightarrow> rect h w (binary_erosion n img)"
  by (induction n) (simp_all add: binary_erosion_def rect_erosion1)

text \<open>One step towards a pixel: itself or a neighbour that is one closer.\<close>

lemma step_towards:
  fixes r c r' c' :: int
  assumes "\<bar>r - r'\<bar> + \<bar>c - c'\<bar> \<le> int (Suc n)"
  shows "\<bar>r - r'\<bar> + \<bar>c - c'\<bar> \<le> int n
       \<or> (r < r' \<and> \<bar>(r + 1) - r'\<bar> + \<bar>c - c'\<bar> \<le> int n)
       \<or> (r' < r \<and> \<bar>(r - 1) - r'\<bar> + \<bar>c - c'\<bar> \<le> int n)
       \<or> (r = r' \<and> c < c' \<and> \<bar>r - r'\<bar> + \<bar>(c + 1) - c'\<bar> \<le> int n)
       \<or> (r = r' \<and> c' < c \<and> \<bar>r - r'\<bar> + \<bar>(c - 1) - c'\<bar> \<le> int n)"
  using assms by linarith

lemma pixel_dilation:
  assumes "rect h w img"
  shows "pixel (binary_dilation n img) r c \<longleftrightarrow>
           0 \<le> r \<and> r < int h \<and> 0 \<le> c \<and> c < int w
           \<and> (\<exists>r' c'. \<bar>r - r'\<bar> + \<bar>c - c'\<bar> \<le> int n \<and> pixel img r' c')"
proof (induction n arbitrary: r c)
  case 0
  have "(\<exists>r' c'. \<bar>r - r'\<bar> + \<bar>c - c'\<bar> \<le> 0 \<and> pixel img r' c') \<longleftrightarrow> pixel img r c"
  proof
    assume "\<exists>r' c'. \<bar>r - r'\<bar> + \<bar>c - c'\<bar> \<le> 0 \<and> pixel img r' c'"
    then obtain r' c' where "\<bar>r - r'\<bar> + \<bar>c - c'\<bar> \<le> 0" and p: "pixel img r' c'" by blast
    then have "r' = r" and "c' = c" by linarith+
    with p show "pixel img r c" by simp
  next
    assume "pixel img r c"
    then show "\<exists>r' c'. \<bar>r - r'\<bar> + \<bar>c - c'\<bar> \<le> 0 \<and> pixel img r' c'"
      by (intro exI [of _ r] exI [of _ c]) simp
  qed
  then show ?case
    using pixel_rect [OF assms] by (auto simp: binary_dilation_def)
next
  case (Suc n)
  let ?D = "binary_dilation n img"
  have rectD: "rect h w ?D" by (rule rect_dilation [OF assms])
  have unfold: "binary_dilation (Suc n) img = binary_dilation1 ?D"
    by (simp add: binary_dilation_def)
  show ?case
  proof
    assume "pixel (binary_dilation (Suc n) img) r c"
    then have ins: "0 \<le> r \<and> r < int h \<and> 0 \<le> c \<and> c < int w"
      and nb: "pixel ?D r c \<or> pixel ?D (r - 1) c \<or> pixel ?D (r + 1) c
               \<or> pixel ?D r (c - 1) \<or> pixel ?D r (c + 1)"
      by (simp_all add: unfold pixel_dilation1 [OF rectD])
    from nb obtain r1 c1 where near: "\<bar>r - r1\<bar> + \<bar>c - c1\<bar> \<le> 1" and p1: "pixel ?D r1 c1"
    proof (elim disjE)
      assume "pixel ?D r c" then show ?thesis by (intro that [of r c]) simp_all
    next
      assume "pixel ?D (r - 1) c" then show ?thesis by (intro that [of "r - 1" c]) simp_all
    next
      assume "pixel ?D (r + 1) c" then show ?thesis by (intro that [of "r + 1" c]) simp_all
    next
      assume "pixel ?D r (c - 1)" then show ?thesis by (intro that [of r "c - 1"]) simp_all
    next
      assume "pixel ?D r (c + 1)" then show ?thesis by (intro that [of r "c + 1"]) simp_all
    qed
    from p1 obtain r' c' where far: "\<bar>r1 - r'\<bar> + \<bar>c1 - c'\<bar> \<le> int n" and p: "pixel img r' c'"
      using Suc.IH by blast
    have "\<bar>r - r'\<bar> + \<bar>c - c'\<bar> \<le> int (Suc n)"
      using near far by linarith
    with p ins show "0 \<le> r \<and> r < int h \<and> 0 \<le> c \<and> c < int w
           \<and> (\<exists>r' c'. \<bar>r - r'\<bar> + \<bar>c - c'\<bar> \<le> int (Suc n) \<and> pixel img r' c')"
      by blast
  next
    assume rhs: "0 \<le> r \<and> r < int h \<and> 0 \<le> c \<and> c < int w
           \<and> (\<exists>r' c'. \<bar>r - r'\<bar> + \<bar>c - c'\<bar> \<le> int (Suc n) \<and> pixel img r' c')"
    then obtain r' c' where d: "\<bar>r - r'\<bar> + \<bar>c - c'\<bar> \<le> int (Suc n)" and p: "pixel img r' c'"
      by blast
    from p have ins': "0 \<le> r' \<and> r' < int h \<and> 0 \<le> c' \<and> c' < int w"
      by (simp add: pixel_rect [OF assms])
    from rhs have ins: "0 \<le> r \<and> r < int h \<and> 0 \<le> c \<and> c < int w" by blast
    have "pixel ?D r c \<or> pixel ?D (r - 1) c \<or> pixel ?D (r + 1) c
               \<or> pixel ?D r (c - 1) \<or> pixel ?D r (c + 1)"
      using step_towards [OF d]
    proof (elim disjE conjE)
      assume "\<bar>r - r'\<bar> + \<bar>c - c'\<bar> \<le> int n"
      with p ins have "pixel ?D r c" using Suc.IH by blast
      then show ?thesis by blast
    next
      assume "r < r'" and "\<bar>r + 1 - r'\<bar> + \<bar>c - c'\<bar> \<le> int n"
      with p ins ins' have "pixel ?D (r + 1) c" using Suc.IH [of "r + 1" c] by force
      then show ?thesis by blast
    next
      assume "r' < r" and "\<bar>r - 1 - r'\<bar> + \<bar>c - c'\<bar> \<le> int n"
      with p ins ins' have "pixel ?D (r - 1) c" using Suc.IH [of "r - 1" c] by force
      then show ?thesis by blast
    next
      assume "c < c'" and "\<bar>r - r'\<bar> + \<bar>c + 1 - c'\<bar> \<le> int n"
      with p ins ins' have "pixel ?D r (c + 1)" using Suc.IH [of r "c + 1"] by force
      then show ?thesis by blast
    next
      assume "c' < c" and "\<bar>r - r'\<bar> + \<bar>c - 1 - c'\<bar> \<le> int n"
      with p ins ins' have "pixel ?D r (c - 1)" using Suc.IH [of r "c - 1"] by force
      then show ?thesis by blast
    qed
    with ins show "pixel (binary_dilation (Suc n) img) r c"
      by (simp add: unfold pixel_dilation1 [OF rectD])
  qed
qed

lemma pixel_erosion:
  assumes "rect h w img"
  shows "pixel (binary_erosion n img) r c \<longleftrightarrow>
           (\<forall>r' c'. \<bar>r - r'\<bar> + \<bar>c - c'\<bar> \<le> int n \<longrightarrow> pixel img r' c')"
proof (induction n arbitrary: r c)
  case 0
  have "(\<forall>r' c'. \<bar>r - r'\<bar> + \<bar>c - c'\<bar> \<le> 0 \<longrightarrow> pixel img r' c') \<longleftrightarrow> pixel img r c"
  proof
    assume "\<forall>r' c'. \<bar>r - r'\<bar> + \<bar>c - c'\<bar> \<le> 0 \<longrightarrow> pixel img r' c'"
    then show "pixel img r c" by simp
  next
    assume p: "pixel img r c"
    show "\<forall>r' c'. \<bar>r - r'\<bar> + \<bar>c - c'\<bar> \<le> 0 \<longrightarrow> pixel img r' c'"
    proof (intro allI impI)
      fix r' c' :: int
      assume "\<bar>r - r'\<bar> + \<bar>c - c'\<bar> \<le> 0"
      then have "r' = r" and "c' = c" by linarith+
      with p show "pixel img r' c'" by simp
    qed
  qed
  then show ?case
    by (simp add: binary_erosion_def)
next
  case (Suc n)
  let ?E = "binary_erosion n img"
  have rectE: "rect h w ?E" by (rule rect_erosion [OF assms])
  have unfold: "binary_erosion (Suc n) img = binary_erosion1 ?E"
    by (simp add: binary_erosion_def)
  show ?case
  proof
    assume "pixel (binary_erosion (Suc n) img) r c"
    then have nb: "pixel ?E r c" "pixel ?E (r - 1) c" "pixel ?E (r + 1) c"
      "pixel ?E r (c - 1)" "pixel ?E r (c + 1)"
      by (simp_all add: unfold pixel_erosion1 [OF rectE])
    show "\<forall>r' c'. \<bar>r - r'\<bar> + \<bar>c - c'\<bar> \<le> int (Suc n) \<longrightarrow> pixel img r' c'"
    proof (intro allI impI)
      fix r' c' :: int
      assume d: "\<bar>r - r'\<bar> + \<bar>c - c'\<bar> \<le> int (Suc n)"
      show "pixel img r' c'"
        using step_towards [OF d]
      proof (elim disjE conjE)
        assume "\<bar>r - r'\<bar> + \<bar>c - c'\<bar> \<le> int n"
        with nb(1) show ?thesis using Suc.IH by blast
      next
        assume "\<bar>r + 1 - r'\<bar> + \<bar>c - c'\<bar> \<le> int n"
        with nb(3) show ?thesis using Suc.IH by blast
      next
        assume "\<bar>r - 1 - r'\<bar> + \<bar>c - c'\<bar> \<le> int n"
        with nb(2) show ?thesis using Suc.IH by blast
      next
        assume "\<bar>r - r'\<bar> + \<bar>c + 1 - c'\<bar> \<le> int n"
        with nb(5) show ?thesis using Suc.IH by blast
      next
        assume "\<bar>r - r'\<bar> + \<bar>c - 1 - c'\<bar> \<le> int n"
        with nb(4) show ?thesis using Suc.IH by blast
      qed
    qed
  next
    assume all: "\<forall>r' c'. \<bar>r - r'\<bar> + \<bar>c - c'\<bar> \<le> int (Suc n) \<longrightarrow> pixel img r' c'"
    have near: "pixel ?E r1 c1" if "\<bar>r - r1\<bar> + \<bar>c - c1\<bar> \<le> 1" for r1 c1
    proof -
      have "pixel img r' c'" if "\<bar>r1 - r'\<bar> + \<bar>c1 - c'\<bar> \<le> int n" for r' c'
      proof -
        have "\<bar>r - r'\<bar> + \<bar>c - c'\<bar> \<le> int (Suc n)"
          using that \<open>\<bar>r - r1\<bar> + \<bar>c - c1\<bar> \<le> 1\<close> by linarith
        with all show ?thesis by blast
      qed
      then show ?thesis using Suc.IH by blast
    qed
    have "pixel ?E r c" "pixel ?E (r - 1) c" "pixel ?E (r + 1) c"
      "pixel ?E r (c - 1)" "pixel ?E r (c + 1)"
      by (rule near; simp)+
    then show "pixel (binary_erosion (Suc n) img) r c"
      by (simp add: unfold pixel_erosion1 [OF rectE])
  qed
qed

lemma pixel_closing:
  assumes "rect h w img"
  shows "pixel (binary_closing n img) r c \<longleftrightarrow>
           (\<forall>r' c'. \<bar>r - r'\<bar> + \<bar>c - c'\<bar> \<le> int n \<longrightarrow>
              0 \<le> r' \<and> r' < int h \<and> 0 \<le> c' \<and> c' < int w
              \<and> (\<exists>r'' c''. \<bar>r' - r''\<bar> + \<bar>c' - c''\<bar> \<le> int n \<and> pixel img r'' c''))"
  by (simp add: binary_closing_def pixel_erosion [OF rect_dilation [OF assms]]
      pixel_dilation [OF assms])

lemma rect_closing: "rect h w img \<Longrightarrow> rect h w (binary_closing n img)"
  by (simp add: binary_closing_def rect_erosion rect_dilation)

lemma reflect_index_less: "0 < n \<Longrightarrow> reflect_index n j < n"
proof (cases "n = 1")
  case True
  then show ?thesis by (simp add: reflect_index_def)
next
  case False
  assume "0 < n"
  with False have p: "0 < 2 * (int n - 1)" by simp
  have "0 \<le> j mod (2 * (int n - 1))" and "j mod (2 * (int n - 1)) < 2 * (int n - 1)"
    using p by simp_all
  then show ?thesis
    using False by (auto simp: reflect_index_def Let_def)
qed

lemma reflect_index_inside: "0 \<le> j \<Longrightarrow> j < int n \<Longrightarrow> reflect_index n j = nat j"
  by (cases "n = 1") (auto simp: reflect_index_def Let_def)

lemma reflect_index_leading:
  assumes "9 \<le> n" and "- 8 \<le> j" and "j < 0"
  shows "reflect_index n j = nat (- j)"
proof -
  let ?p = "2 * int n - 2"
  have "j mod ?p = (j + ?p) mod ?p" by simp
  also have "\<dots> = j + ?p" using assms by (intro mod_pos_pos_trivial) simp_all
  finally have m: "j mod ?p = j + ?p" .
  have "reflect_index n j = nat (if j + ?p < int n then j + ?p else ?p - (j + ?p))"
    using assms(1) by (simp add: reflect_index_def Let_def m)
  also have "\<dots> = nat (- j)"
    using assms by auto
  finally show ?thesis .
qed

lemma reflect_index_trailing:
  assumes "9 \<le> n" and "int n \<le> j" and "j < int n + 8"
  shows "reflect_index n j = nat (2 * (int n - 1) - j)"
proof -
  let ?p = "2 * int n - 2"
  show ?thesis
  proof (cases "j < ?p")
    case True
    have m: "j mod ?p = j" using assms True by (intro mod_pos_pos_trivial) simp_all
    have "reflect_index n j = nat (if j < int n then j else ?p - j)"
      using assms(1) by (simp add: reflect_index_def Let_def m)
    then show ?thesis using assms by simp
  next
    case False
    with assms have j: "j = ?p" and n: "n = 9" by linarith+
    have "reflect_index n j = 0"
      by (simp add: reflect_index_def Let_def j n)
    then show ?thesis by (simp add: j)
  qed
qed

lemma pad_axis_Inr:
  "xs \<noteq> [] \<Longrightarrow>
     pad_axis k xs = Inr (map (\<lambda>j. xs ! reflect_index (length xs) (int j - int k))
                           [0..<length xs + 2 * k])"
  by (simp add: pad_axis_def)

lemma collect_map_Inr: "collect (map (\<lambda>x. Inr (f x)) xs) = Inr (map f xs)"
  by (induction xs) simp_all

lemma pad_reflect_rect:
  assumes "rect h w P" and "0 < h" and "0 < w"
  shows "pad_reflect k P =
           Inr (map (\<lambda>i. map (\<lambda>j. P ! reflect_index h (int i - int k)
                                    ! reflect_index w (int j - int k))
                           [0..<w + 2 * k])
                  [0..<h + 2 * k])"
proof -
  have len: "length P = h" using assms(1) by (rule rect_length)
  then have ne: "P \<noteq> []" using assms(2) by auto
  let ?padded_rows = "map (\<lambda>i. P ! reflect_index h (int i - int k)) [0..<h + 2 * k]"
  have first: "pad_axis k P = Inr ?padded_rows"
    using pad_axis_Inr [OF ne] len by simp
  have each: "pad_axis k row =
                Inr (map (\<lambda>j. row ! reflect_index w (int j - int k)) [0..<w + 2 * k])"
    if "row \<in> set ?padded_rows" for row
  proof -
    from that obtain i where "row = P ! reflect_index h (int i - int k)" by auto
    then have "length row = w"
      using rect_nth [OF assms(1)] reflect_index_less [OF assms(2)] by simp
    then show ?thesis
      using assms(3) pad_axis_Inr [of row k] by auto
  qed
  have "map (pad_axis k) ?padded_rows =
          map (\<lambda>row. Inr (map (\<lambda>j. row ! reflect_index w (int j - int k)) [0..<w + 2 * k]))
            ?padded_rows"
    by (rule map_cong [OF refl each])
  then have "collect (map (pad_axis k) ?padded_rows) =
          Inr (map (\<lambda>row. map (\<lambda>j. row ! reflect_index w (int j - int k)) [0..<w + 2 * k])
                 ?padded_rows)"
    by (simp only: collect_map_Inr)
  then show ?thesis
    by (simp add: pad_reflect_def first comp_def)
qed

lemma rect_crop:
  assumes "rect (h + 2 * k) (w + 2 * k) img"
  shows "rect h w (crop k img)"
proof (rule rectI)
  show "length (crop k img) = h"
    using rect_length [OF assms] by (simp add: crop_def)
next
  fix r assume "r < h"
  then show "length (crop k img ! r) = w"
    using rect_length [OF assms] rect_nth [OF assms, of "r + k"]
    by (simp add: crop_def add.commute)
qed

lemma crop_nth:
  assumes "rect (h + 2 * k) (w + 2 * k) img" and "r < h" and "c < w"
  shows "crop k img ! r ! c = img ! (r + k) ! (c + k)"
  using assms rect_length [OF assms(1)] rect_nth [OF assms(1), of "r + k"]
  by (simp add: crop_def add.commute)

lemma any_above_rect:
  assumes "x \<noteq> []" and "list_all (rect h w) x"
  shows "rect h w (any_above x)"
    and "r < h \<Longrightarrow> c < w \<Longrightarrow> any_above x ! r ! c = present x r c"
proof -
  obtain ch chs where x: "x = ch # chs" using assms(1) by (cases x) auto
  then have ch: "rect h w ch" using assms(2) by simp
  show "rect h w (any_above x)"
    by (rule rectI) (simp_all add: any_above_def x rect_length [OF ch] rect_nth [OF ch])
  show "any_above x ! r ! c = present x r c" if "r < h" and "c < w"
    using that rect_length [OF ch] rect_nth [OF ch]
    by (simp add: any_above_def x present_def)
qed

lemma closed_mask_pixel:
  assumes "x \<noteq> []" and "list_all (rect h w) x" and "0 < h" and "0 < w"
  shows "\<exists>m. closed_mask x = Inr m \<and> rect h w m
           \<and> (\<forall>r c. r < h \<and> c < w \<longrightarrow>
                (m ! r ! c \<longleftrightarrow>
                   (\<forall>qr qc. \<bar>int r - qr\<bar> + \<bar>int c - qc\<bar> \<le> 8 \<longrightarrow>
                      (\<exists>sr sc. \<bar>qr - sr\<bar> + \<bar>qc - sc\<bar> \<le> 8 \<and> padded_present h w x sr sc))))"
proof -
  let ?P = "any_above x"
  let ?PP = "map (\<lambda>i. map (\<lambda>j. ?P ! reflect_index h (int i - int 8)
                                    ! reflect_index w (int j - int 8))
                           [0..<w + 2 * 8])
                  [0..<h + 2 * 8]"
  let ?m = "crop 8 (binary_closing 8 ?PP)"
  have rectP: "rect h w ?P" by (rule any_above_rect(1) [OF assms(1,2)])
  have pad: "pad_reflect 8 ?P = Inr ?PP"
    by (rule pad_reflect_rect [OF rectP assms(3,4)])
  have rectPP: "rect (h + 2 * 8) (w + 2 * 8) ?PP"
    by (rule rectI) simp_all
  have rectC: "rect (h + 2 * 8) (w + 2 * 8) (binary_closing 8 ?PP)"
    by (rule rect_closing [OF rectPP])
  have run: "closed_mask x = Inr ?m"
    by (simp add: closed_mask_def pad)
  have rectm: "rect h w ?m"
    by (rule rect_crop [OF rectC])
  have pixPP': "pixel ?PP sr sc \<longleftrightarrow>
      0 \<le> sr \<and> sr < int h + 16 \<and> 0 \<le> sc \<and> sc < int w + 16 \<and> ?PP ! nat sr ! nat sc" for sr sc
    using pixel_rect [OF rectPP, of sr sc] by simp
  have pixPP: "pixel ?PP sr sc \<longleftrightarrow> padded_present h w x (sr - 8) (sc - 8)" for sr sc
  proof (cases "0 \<le> sr \<and> sr < int h + 16 \<and> 0 \<le> sc \<and> sc < int w + 16")
    case True
    then have sr: "nat sr < h + 16" and sc: "nat sc < w + 16" by auto
    have "?PP ! nat sr ! nat sc
            = ?P ! reflect_index h (sr - 8) ! reflect_index w (sc - 8)"
      using sr sc True by simp
    also have "\<dots> = present x (reflect_index h (sr - 8)) (reflect_index w (sc - 8))"
      by (rule any_above_rect(2) [OF assms(1,2)])
        (simp_all add: reflect_index_less assms(3,4))
    finally have "?PP ! nat sr ! nat sc
            = present x (reflect_index h (sr - 8)) (reflect_index w (sc - 8))" .
    then show ?thesis
      using True unfolding pixPP' padded_present_def by auto
  next
    case False
    then show ?thesis
      unfolding pixPP' padded_present_def by auto
  qed
  have px: "?m ! r ! c \<longleftrightarrow>
              (\<forall>qr qc. \<bar>int r - qr\<bar> + \<bar>int c - qc\<bar> \<le> 8 \<longrightarrow>
                 (\<exists>sr sc. \<bar>qr - sr\<bar> + \<bar>qc - sc\<bar> \<le> 8 \<and> padded_present h w x sr sc))"
    if r: "r < h" and c: "c < w" for r c
  proof -
    have "?m ! r ! c = binary_closing 8 ?PP ! (r + 8) ! (c + 8)"
      by (rule crop_nth [OF rectC r c])
    also have "\<dots> \<longleftrightarrow> pixel (binary_closing 8 ?PP) (int r + 8) (int c + 8)"
    proof -
      have "nat (int r + 8) = r + 8" and "nat (int c + 8) = c + 8" by simp_all
      then show ?thesis
        using r c pixel_rect [OF rectC, of "int r + 8" "int c + 8"] by simp
    qed
    also have "\<dots> \<longleftrightarrow>
        (\<forall>r' c'. \<bar>int r + 8 - r'\<bar> + \<bar>int c + 8 - c'\<bar> \<le> 8 \<longrightarrow>
              0 \<le> r' \<and> r' < int (h + 2 * 8) \<and> 0 \<le> c' \<and> c' < int (w + 2 * 8)
              \<and> (\<exists>r'' c''. \<bar>r' - r''\<bar> + \<bar>c' - c''\<bar> \<le> 8
                    \<and> padded_present h w x (r'' - 8) (c'' - 8)))"
      unfolding pixel_closing [OF rectPP, of 8 "int r + 8" "int c + 8"] pixPP by simp
    also have "\<dots> \<longleftrightarrow>
        (\<forall>qr qc. \<bar>int r - qr\<bar> + \<bar>int c - qc\<bar> \<le> 8 \<longrightarrow>
                 (\<exists>sr sc. \<bar>qr - sr\<bar> + \<bar>qc - sc\<bar> \<le> 8 \<and> padded_present h w x sr sc))"
      (is "?L \<longleftrightarrow> ?R")
    proof
      assume L: ?L
      show ?R
      proof (intro allI impI)
        fix qr qc :: int
        assume "\<bar>int r - qr\<bar> + \<bar>int c - qc\<bar> \<le> 8"
        then have "\<bar>int r + 8 - (qr + 8)\<bar> + \<bar>int c + 8 - (qc + 8)\<bar> \<le> 8" by simp
        with L obtain r'' c'' where "\<bar>qr + 8 - r''\<bar> + \<bar>qc + 8 - c''\<bar> \<le> 8"
          and "padded_present h w x (r'' - 8) (c'' - 8)" by blast
        then show "\<exists>sr sc. \<bar>qr - sr\<bar> + \<bar>qc - sc\<bar> \<le> 8 \<and> padded_present h w x sr sc"
          by (intro exI [of _ "r'' - 8"] exI [of _ "c'' - 8"]) simp
      qed
    next
      assume R: ?R
      show ?L
      proof (intro allI impI)
        fix r' c' :: int
        assume d: "\<bar>int r + 8 - r'\<bar> + \<bar>int c + 8 - c'\<bar> \<le> 8"
        then have "\<bar>int r - (r' - 8)\<bar> + \<bar>int c - (c' - 8)\<bar> \<le> 8" by simp
        with R obtain sr sc where "\<bar>r' - 8 - sr\<bar> + \<bar>c' - 8 - sc\<bar> \<le> 8"
          and "padded_present h w x sr sc" by blast
        then have "\<exists>r'' c''. \<bar>r' - r''\<bar> + \<bar>c' - c''\<bar> \<le> 8
                    \<and> padded_present h w x (r'' - 8) (c'' - 8)"
          by (intro exI [of _ "sr + 8"] exI [of _ "sc + 8"]) simp
        moreover have "0 \<le> r' \<and> r' < int (h + 2 * 8) \<and> 0 \<le> c' \<and> c' < int (w + 2 * 8)"
          using d r c by auto
        ultimately show "0 \<le> r' \<and> r' < int (h + 2 * 8) \<and> 0 \<le> c' \<and> c' < int (w + 2 * 8)
              \<and> (\<exists>r'' c''. \<bar>r' - r''\<bar> + \<bar>c' - c''\<bar> \<le> 8
                    \<and> padded_present h w x (r'' - 8) (c'' - 8))"
          by blast
      qed
    qed
    finally show ?thesis .
  qed
  show ?thesis
    using run rectm px by (intro exI [of _ ?m]) blast
qed

lemma reflect_index_window:
  assumes "9 \<le> n" and "- 8 \<le> j" and "j < int n + 8"
  shows "reflect_index n j =
           nat (if j < 0 then - j else if j < int n then j else 2 * (int n - 1) - j)"
proof -
  consider "j < 0" | "0 \<le> j \<and> j < int n" | "int n \<le> j" by linarith
  then show ?thesis
  proof cases
    case 1
    then show ?thesis using reflect_index_leading [OF assms(1,2)] by simp
  next
    case 2
    then show ?thesis using reflect_index_inside [of j n] by simp
  next
    case 3
    then show ?thesis using reflect_index_trailing [OF assms(1) _ assms(3)] by simp
  qed
qed

lemma reflect_index_adjacent:
  assumes "9 \<le> n" and "- 8 \<le> j" and "j + 1 < int n + 8"
  shows "reflect_index n (j + 1) \<noteq> reflect_index n j"
proof -
  have a: "reflect_index n j =
           nat (if j < 0 then - j else if j < int n then j else 2 * (int n - 1) - j)"
    using assms by (intro reflect_index_window) simp_all
  have b: "reflect_index n (j + 1) =
           nat (if j + 1 < 0 then - (j + 1) else if j + 1 < int n then j + 1
                else 2 * (int n - 1) - (j + 1))"
    using assms by (intro reflect_index_window) simp_all
  show ?thesis
    unfolding a b using assms by (auto split: if_splits)
qed

lemma reflect_index_closer:
  assumes "9 \<le> n" and "- 8 \<le> j" and "j < int n + 8" and "r < n"
  shows "\<bar>int r - int (reflect_index n j)\<bar> \<le> \<bar>int r - j\<bar>"
  unfolding reflect_index_window [OF assms(1-3)] using assms by (auto split: if_splits)

lemma collect_map_projr:
  "(\<And>x. x \<in> set xs \<Longrightarrow> \<exists>m. g x = Inr m) \<Longrightarrow>
     collect (map g xs) = Inr (map (\<lambda>x. projr (g x)) xs)"
proof (induction xs)
  case Nil
  then show ?case by simp
next
  case (Cons x xs)
  from Cons.prems [of x] obtain m where m: "g x = Inr m" by auto
  have "collect (map g xs) = Inr (map (\<lambda>x. projr (g x)) xs)"
    by (rule Cons.IH) (simp add: Cons.prems)
  then show ?case by (simp add: m)
qed

lemma tiles_nth:
  "tiles h w x_in \<Longrightarrow> ind < length x_in \<Longrightarrow> x_in ! ind \<noteq> [] \<and> list_all (rect h w) (x_in ! ind)"
  by (simp add: tiles_def list_all_length)

lemma get_invalid_mask_tiles:
  assumes "tiles h w x_in" and "0 < h" and "0 < w"
  shows "get_invalid_mask x_in =
           Inr (map (\<lambda>x. map (map Not) (projr (closed_mask x))) x_in)"
proof -
  have "\<exists>m. closed_mask x = Inr m" if "x \<in> set x_in" for x
  proof -
    from that assms(1) have "x \<noteq> []" and "list_all (rect h w) x"
      by (auto simp: tiles_def list_all_iff)
    then show ?thesis
      using closed_mask_pixel [OF _ _ assms(2,3), of x] by blast
  qed
  then have "collect (map closed_mask x_in) = Inr (map (\<lambda>x. projr (closed_mask x)) x_in)"
    by (rule collect_map_projr)
  moreover have "x_in \<noteq> []" using assms(1) by (simp add: tiles_def)
  ultimately show ?thesis
    by (simp add: get_invalid_mask_def comp_def)
qed

lemma invalid_mask_pixel:
  assumes "tiles h w x_in" and "0 < h" and "0 < w" and "ind < length x_in"
  shows "\<exists>masks. get_invalid_mask x_in = Inr masks \<and> length masks = length x_in
           \<and> rect h w (masks ! ind)
           \<and> (\<forall>r c. r < h \<and> c < w \<longrightarrow>
                (masks ! ind ! r ! c \<longleftrightarrow>
                   (\<exists>qr qc. \<bar>int r - qr\<bar> + \<bar>int c - qc\<bar> \<le> 8
                      \<and> (\<forall>sr sc. \<bar>qr - sr\<bar> + \<bar>qc - sc\<bar> \<le> 8 \<longrightarrow>
                            \<not> padded_present h w (x_in ! ind) sr sc))))"
proof -
  let ?masks = "map (\<lambda>x. map (map Not) (projr (closed_mask x))) x_in"
  have run: "get_invalid_mask x_in = Inr ?masks"
    by (rule get_invalid_mask_tiles [OF assms(1-3)])
  from tiles_nth [OF assms(1,4)]
  obtain m where m: "closed_mask (x_in ! ind) = Inr m" and rectm: "rect h w m"
    and px: "\<And>r c. r < h \<Longrightarrow> c < w \<Longrightarrow>
                (m ! r ! c \<longleftrightarrow>
                   (\<forall>qr qc. \<bar>int r - qr\<bar> + \<bar>int c - qc\<bar> \<le> 8 \<longrightarrow>
                      (\<exists>sr sc. \<bar>qr - sr\<bar> + \<bar>qc - sc\<bar> \<le> 8
                         \<and> padded_present h w (x_in ! ind) sr sc)))"
    using closed_mask_pixel [OF _ _ assms(2,3), of "x_in ! ind"] by blast
  have nth: "?masks ! ind = map (map Not) m"
    using assms(4) by (simp add: m)
  have rect: "rect h w (?masks ! ind)"
    unfolding nth using rectm by (simp add: rect_def list_all_iff)
  have "?masks ! ind ! r ! c \<longleftrightarrow>
          (\<exists>qr qc. \<bar>int r - qr\<bar> + \<bar>int c - qc\<bar> \<le> 8
              \<and> (\<forall>sr sc. \<bar>qr - sr\<bar> + \<bar>qc - sc\<bar> \<le> 8 \<longrightarrow>
                    \<not> padded_present h w (x_in ! ind) sr sc))"
    if "r < h" and "c < w" for r c
  proof -
    have "?masks ! ind ! r ! c \<longleftrightarrow> \<not> m ! r ! c"
      unfolding nth using that rect_length [OF rectm] rect_nth [OF rectm] by simp
    then show ?thesis
      unfolding px [OF that] by blast
  qed
  with run rect show ?thesis
    by (intro exI [of _ ?masks]) simp
qed

text \<open>Every padded position next to a present pixel: nothing is flagged.\<close>

lemma isolated_pixel_bridged:
  assumes "9 \<le> h" and "9 \<le> w"
    and others: "\<And>r c. r < h \<Longrightarrow> c < w \<Longrightarrow> (r, c) \<noteq> (r0, c0) \<Longrightarrow> present x r c"
    and q: "- 8 \<le> qr" "qr < int h + 8" "- 8 \<le> qc" "qc < int w + 8"
  shows "\<exists>sr sc. \<bar>qr - sr\<bar> + \<bar>qc - sc\<bar> \<le> 8 \<and> padded_present h w x sr sc"
proof (cases "(reflect_index h qr, reflect_index w qc) = (r0, c0)")
  case False
  have "present x (reflect_index h qr) (reflect_index w qc)"
    using assms(1,2) False by (intro others reflect_index_less) simp_all
  then have "padded_present h w x qr qc"
    using q by (simp add: padded_present_def)
  then show ?thesis
    by (intro exI [of _ qr] exI [of _ qc]) simp
next
  case True
  define sr where "sr = (if qr + 1 < int h + 8 then qr + 1 else qr - 1)"
  have range: "- 8 \<le> sr" "sr < int h + 8"
    using q assms(1) by (auto simp: sr_def)
  have "reflect_index h sr \<noteq> reflect_index h qr"
  proof (cases "qr + 1 < int h + 8")
    case True
    then show ?thesis
      using reflect_index_adjacent [OF assms(1) q(1)] by (simp add: sr_def)
  next
    case False
    then have sr: "sr = qr - 1" by (simp add: sr_def)
    have "- 8 \<le> qr - 1" and "qr - 1 + 1 < int h + 8"
      using False q assms(1) by simp_all
    then have "reflect_index h (qr - 1 + 1) \<noteq> reflect_index h (qr - 1)"
      by (rule reflect_index_adjacent [OF assms(1)])
    then show ?thesis
      by (simp add: sr)
  qed
  with True have "(reflect_index h sr, reflect_index w qc) \<noteq> (r0, c0)" by auto
  then have "present x (reflect_index h sr) (reflect_index w qc)"
    using assms(1,2) by (intro others reflect_index_less) simp_all
  then have "padded_present h w x sr qc"
    using q range by (simp add: padded_present_def)
  moreover have "\<bar>qr - sr\<bar> + \<bar>qc - qc\<bar> \<le> 8"
    by (simp add: sr_def)
  ultimately show ?thesis by blast
qed

lemma ball_not_bridged:
  assumes "9 \<le> h" and "9 \<le> w" and "r < h" and "c < w"
    and ball: "\<And>r' c'. r' < h \<Longrightarrow> c' < w \<Longrightarrow>
                 \<bar>int r - int r'\<bar> + \<bar>int c - int c'\<bar> \<le> 8 \<Longrightarrow> \<not> present x r' c'"
    and d: "\<bar>int r - sr\<bar> + \<bar>int c - sc\<bar> \<le> 8"
  shows "\<not> padded_present h w x sr sc"
proof
  assume p: "padded_present h w x sr sc"
  then have range: "- 8 \<le> sr" "sr < int h + 8" "- 8 \<le> sc" "sc < int w + 8"
    and pres: "present x (reflect_index h sr) (reflect_index w sc)"
    by (simp_all add: padded_present_def)
  have "\<bar>int r - int (reflect_index h sr)\<bar> \<le> \<bar>int r - sr\<bar>"
    by (rule reflect_index_closer [OF assms(1) range(1,2) assms(3)])
  moreover have "\<bar>int c - int (reflect_index w sc)\<bar> \<le> \<bar>int c - sc\<bar>"
    by (rule reflect_index_closer [OF assms(2) range(3,4) assms(4)])
  ultimately have "\<bar>int r - int (reflect_index h sr)\<bar> + \<bar>int c - int (reflect_index w sc)\<bar> \<le> 8"
    using d by linarith
  then have "\<not> present x (reflect_index h sr) (reflect_index w sc)"
    using assms(1,2) by (intro ball reflect_index_less) simp_all
  with pres show False by contradiction
qed

lemma rect_all_False:
  assumes "rect h w m" and "\<And>r c. r < h \<Longrightarrow> c < w \<Longrightarrow> \<not> m ! r ! c"
  shows "m = replicate h (replicate w False)"
proof (rule nth_equalityI)
  show "length m = length (replicate h (replicate w False))"
    using rect_length [OF assms(1)] by simp
next
  fix r assume "r < length m"
  then have r: "r < h" using rect_length [OF assms(1)] by simp
  have "m ! r = replicate w False"
  proof (rule nth_equalityI)
    show "length (m ! r) = length (replicate w False)"
      using rect_nth [OF assms(1) r] by simp
  next
    fix c assume "c < length (m ! r)"
    then have "c < w" using rect_nth [OF assms(1) r] by simp
    then show "m ! r ! c = replicate w False ! c"
      using assms(2) [OF r] by simp
  qed
  then show "m ! r = replicate h (replicate w False) ! r"
    using r by simp
qed

lemma nothing_flagged:
  assumes "tiles h w x_in" and "0 < h" and "0 < w" and "ind < length x_in"
    and near: "\<And>qr qc. - 8 \<le> qr \<Longrightarrow> qr < int h + 8 \<Longrightarrow> - 8 \<le> qc \<Longrightarrow> qc < int w + 8 \<Longrightarrow>
                \<exists>sr sc. \<bar>qr - sr\<bar> + \<bar>qc - sc\<bar> \<le> 8 \<and> padded_present h w (x_in ! ind) sr sc"
    and masks: "get_invalid_mask x_in = Inr masks"
  shows "masks ! ind = replicate h (replicate w False)"
proof -
  from invalid_mask_pixel [OF assms(1-4)] masks
  have rect: "rect h w (masks ! ind)"
    and px: "\<And>r c. r < h \<Longrightarrow> c < w \<Longrightarrow>
                (masks ! ind ! r ! c \<longleftrightarrow>
                   (\<exists>qr qc. \<bar>int r - qr\<bar> + \<bar>int c - qc\<bar> \<le> 8
                      \<and> (\<forall>sr sc. \<bar>qr - sr\<bar> + \<bar>qc - sc\<bar> \<le> 8 \<longrightarrow>
                            \<not> padded_present h w (x_in ! ind) sr sc)))"
    by auto
  show ?thesis
  proof (rule rect_all_False [OF rect])
    fix r c assume r: "r < h" and c: "c < w"
    show "\<not> masks ! ind ! r ! c"
    proof
      assume "masks ! ind ! r ! c"
      then obtain qr qc where d: "\<bar>int r - qr\<bar> + \<bar>int c - qc\<bar> \<le> 8"
        and none: "\<And>sr sc. \<bar>qr - sr\<bar> + \<bar>qc - sc\<bar> \<le> 8 \<Longrightarrow>
                     \<not> padded_present h w (x_in ! ind) sr sc"
        using px [OF r c] by blast
      have "- 8 \<le> qr" "qr < int h + 8" "- 8 \<le> qc" "qc < int w + 8"
        using d r c by auto
      from near [OF this] none show False by blast
    qed
  qed
qed

text \<open>
  C3 (as amended). For a batch of tiles of at least 9 by 9 pixels, each with a channel:
  the mask of a batch element is the inverse of the crop of the closing (8 iterations) of
  the presence mask padded by 8 pixels by reflection. A pixel is flagged exactly when
  some position within Manhattan distance 8 of it has no present pixel of the padded
  mask within Manhattan distance 8. So a tile with all pixels but one present yields an
  all-false mask, and a pixel is flagged when no pixel of the tile within Manhattan
  distance 8 of it is present.
\<close>

theorem invalid_mask_closing:
  assumes "tiles h w x_in" and "9 \<le> h" and "9 \<le> w" and "ind < length x_in"
  shows "\<exists>masks padded.
           get_invalid_mask x_in = Inr masks \<and> length masks = length x_in
         \<and> pad_reflect 8 (any_above (x_in ! ind)) = Inr padded
         \<and> masks ! ind = map (map Not) (crop 8 (binary_closing 8 padded))
         \<and> rect h w (masks ! ind)
         \<and> (\<forall>r c. r < h \<and> c < w \<longrightarrow>
              (masks ! ind ! r ! c \<longleftrightarrow>
                 (\<exists>qr qc. \<bar>int r - qr\<bar> + \<bar>int c - qc\<bar> \<le> 8
                    \<and> (\<forall>sr sc. \<bar>qr - sr\<bar> + \<bar>qc - sc\<bar> \<le> 8 \<longrightarrow>
                          \<not> padded_present h w (x_in ! ind) sr sc))))
         \<and> ((\<exists>r0 c0. \<forall>r c. r < h \<and> c < w \<and> (r, c) \<noteq> (r0, c0) \<longrightarrow> present (x_in ! ind) r c)
              \<longrightarrow> masks ! ind = replicate h (replicate w False))
         \<and> (\<forall>r c. r < h \<and> c < w
                \<and> (\<forall>r' c'. r' < h \<and> c' < w \<and> \<bar>int r - int r'\<bar> + \<bar>int c - int c'\<bar> \<le> 8
                      \<longrightarrow> \<not> present (x_in ! ind) r' c')
              \<longrightarrow> masks ! ind ! r ! c)"
proof -
  have h: "0 < h" and w: "0 < w" using assms(2,3) by simp_all
  from invalid_mask_pixel [OF assms(1) h w assms(4)]
  obtain masks where run: "get_invalid_mask x_in = Inr masks"
    and len: "length masks = length x_in" and rect: "rect h w (masks ! ind)"
    and px: "\<forall>r c. r < h \<and> c < w \<longrightarrow>
                (masks ! ind ! r ! c \<longleftrightarrow>
                   (\<exists>qr qc. \<bar>int r - qr\<bar> + \<bar>int c - qc\<bar> \<le> 8
                      \<and> (\<forall>sr sc. \<bar>qr - sr\<bar> + \<bar>qc - sc\<bar> \<le> 8 \<longrightarrow>
                            \<not> padded_present h w (x_in ! ind) sr sc)))"
    by blast
  from tiles_nth [OF assms(1,4)] have x: "x_in ! ind \<noteq> []" "list_all (rect h w) (x_in ! ind)"
    by simp_all
  obtain padded where pad: "pad_reflect 8 (any_above (x_in ! ind)) = Inr padded"
    using pad_reflect_rect [OF any_above_rect(1) [OF x] h w] by blast
  have "masks = map (\<lambda>x. map (map Not) (projr (closed_mask x))) x_in"
    using run get_invalid_mask_tiles [OF assms(1) h w] by simp
  then have steps: "masks ! ind = map (map Not) (crop 8 (binary_closing 8 padded))"
    using assms(4) by (simp add: closed_mask_def pad)
  have isolated: "masks ! ind = replicate h (replicate w False)"
    if "\<exists>r0 c0. \<forall>r c. r < h \<and> c < w \<and> (r, c) \<noteq> (r0, c0) \<longrightarrow> present (x_in ! ind) r c"
  proof -
    from that obtain r0 c0 where
      others: "\<And>r c. r < h \<Longrightarrow> c < w \<Longrightarrow> (r, c) \<noteq> (r0, c0) \<Longrightarrow> present (x_in ! ind) r c"
      by blast
    show ?thesis
      by (rule nothing_flagged [OF assms(1) h w assms(4) _ run])
        (rule isolated_pixel_bridged [OF assms(2,3) others])
  qed
  have ball: "masks ! ind ! r ! c"
    if "r < h \<and> c < w
          \<and> (\<forall>r' c'. r' < h \<and> c' < w \<and> \<bar>int r - int r'\<bar> + \<bar>int c - int c'\<bar> \<le> 8
                \<longrightarrow> \<not> present (x_in ! ind) r' c')" for r c
  proof -
    from that have r: "r < h" and c: "c < w"
      and b: "\<And>r' c'. r' < h \<Longrightarrow> c' < w \<Longrightarrow>
                 \<bar>int r - int r'\<bar> + \<bar>int c - int c'\<bar> \<le> 8 \<Longrightarrow> \<not> present (x_in ! ind) r' c'"
      by blast+
    have "\<forall>sr sc. \<bar>int r - sr\<bar> + \<bar>int c - sc\<bar> \<le> 8 \<longrightarrow>
            \<not> padded_present h w (x_in ! ind) sr sc"
      using ball_not_bridged [OF assms(2,3) r c b] by blast
    moreover have "\<bar>int r - int r\<bar> + \<bar>int c - int c\<bar> \<le> 8" by simp
    ultimately show ?thesis
      using px r c by blast
  qed
  show ?thesis
    using run len pad steps rect px isolated ball
    by (intro exI [of _ masks] exI [of _ padded]) blast
qed

lemma tiles_block_tile: "tiles n n (block_tile n b)"
  by (simp add: tiles_def block_tile_def rect_def list_all_iff)

lemma present_block_tile:
  "r < n \<Longrightarrow> c < n \<Longrightarrow>
     present (block_tile n b ! 0) r c \<longleftrightarrow> \<not> (1 \<le> r \<and> r \<le> b \<and> 1 \<le> c \<and> c \<le> b)"
  by (simp add: present_def block_tile_def)

lemma get_invalid_mask_block_tile:
  "0 < n \<Longrightarrow> \<exists>m. get_invalid_mask (block_tile n b) = Inr [m]"
  using get_invalid_mask_tiles [OF tiles_block_tile, of n b]
  by (simp add: block_tile_def)

text \<open>
  The tile of 9 by 9 pixels with the single missing pixel (1, 1) has an all-false mask;
  the centre of a block of 17 by 17 missing pixels is flagged.
\<close>

theorem invalid_mask_closing_witness:
  "tiles 9 9 (block_tile 9 1) \<and> (9 :: nat) \<le> 9 \<and> 0 < length (block_tile 9 1)
   \<and> \<not> present (block_tile 9 1 ! 0) 1 1
   \<and> get_invalid_mask (block_tile 9 1) = Inr [replicate 9 (replicate 9 False)]
   \<and> tiles 19 19 (block_tile 19 17) \<and> flagged (block_tile 19 17) 0 9 9"
proof -
  have len: "0 < length (block_tile n b)" for n b
    by (simp add: block_tile_def)
  have hole: "\<exists>r0 c0. \<forall>r c. r < 9 \<and> c < 9 \<and> (r, c) \<noteq> (r0, c0)
                \<longrightarrow> present (block_tile 9 1 ! 0) r c"
    by (intro exI [of _ 1]) (auto simp: present_block_tile)
  obtain m where m: "get_invalid_mask (block_tile 9 1) = Inr [m]"
    using get_invalid_mask_block_tile [of 9 1] by auto
  have "m = replicate 9 (replicate 9 False)"
    using invalid_mask_closing [OF tiles_block_tile _ _ len, of 9 1] hole m by auto
  with m have first: "get_invalid_mask (block_tile 9 1) = Inr [replicate 9 (replicate 9 False)]"
    by simp
  have centre: "\<forall>r' c'. r' < 19 \<and> c' < 19 \<and> \<bar>int 9 - int r'\<bar> + \<bar>int 9 - int c'\<bar> \<le> 8
                  \<longrightarrow> \<not> present (block_tile 19 17 ! 0) r' c'"
    by (auto simp: present_block_tile)
  have second: "flagged (block_tile 19 17) 0 9 9"
    using invalid_mask_closing [OF tiles_block_tile _ _ len, of 19 17] centre
    by (auto simp: flagged_def)
  show ?thesis
    using first second len [of 9 1] by (simp add: tiles_block_tile present_block_tile)
qed

text \<open>
  C3 as stated has a block of about 16 by 16 missing pixels, or larger, flagged over
  the block. A block of 16 by 16 missing pixels surrounded by present ones is not flagged
  anywhere, and the corner pixel of a block of 24 by 24 is not flagged.
\<close>

theorem invalid_mask_block_counterexample:
  "get_invalid_mask (block_tile 18 16) = Inr [replicate 18 (replicate 18 False)]
   \<and> \<not> present (block_tile 26 24 ! 0) 1 1 \<and> \<not> flagged (block_tile 26 24) 0 1 1"
proof -
  have len: "0 < length (block_tile n b)" for n b
    by (simp add: block_tile_def)
  obtain m where m: "get_invalid_mask (block_tile 18 16) = Inr [m]"
    using get_invalid_mask_block_tile [of 18 16] by auto
  have "[m] ! 0 = replicate 18 (replicate 18 False)"
  proof (rule nothing_flagged [OF tiles_block_tile _ _ len _ m])
    fix qr qc :: int
    assume q: "- 8 \<le> qr" "qr < int 18 + 8" "- 8 \<le> qc" "qc < int 18 + 8"
    define sr :: int where "sr = (if qr \<le> 8 then 0 else 17)"
    have refl: "reflect_index 18 sr = (if qr \<le> 8 then 0 else 17)"
      using reflect_index_inside [of sr 18] by (simp add: sr_def)
    have "reflect_index 18 qc < 18" by (simp add: reflect_index_less)
    then have "present (block_tile 18 16 ! 0) (reflect_index 18 sr) (reflect_index 18 qc)"
      by (simp add: present_block_tile refl)
    then have "padded_present 18 18 (block_tile 18 16 ! 0) sr qc"
      using q by (simp add: padded_present_def sr_def)
    moreover have "\<bar>qr - sr\<bar> + \<bar>qc - qc\<bar> \<le> 8"
      using q by (auto simp: sr_def)
    ultimately show "\<exists>sr sc. \<bar>qr - sr\<bar> + \<bar>qc - sc\<bar> \<le> 8
                       \<and> padded_present 18 18 (block_tile 18 16 ! 0) sr sc"
      by blast
  qed simp_all
  with m have first: "get_invalid_mask (block_tile 18 16) = Inr [replicate 18 (replicate 18 False)]"
    by simp
  obtain m' where m': "get_invalid_mask (block_tile 26 24) = Inr [m']"
    using get_invalid_mask_block_tile [of 26 24] by auto
  from invalid_mask_pixel [OF tiles_block_tile _ _ len, of 26 24] m'
  have px: "[m'] ! 0 ! 1 ! 1 \<longleftrightarrow>
              (\<exists>qr qc. \<bar>int 1 - qr\<bar> + \<bar>int 1 - qc\<bar> \<le> 8
                 \<and> (\<forall>sr sc. \<bar>qr - sr\<bar> + \<bar>qc - sc\<bar> \<le> 8 \<longrightarrow>
                       \<not> padded_present 26 26 (block_tile 26 24 ! 0) sr sc))"
    by auto
  have "\<not> [m'] ! 0 ! 1 ! 1"
    unfolding px
  proof (intro notI, elim exE conjE)
    fix qr qc :: int
    assume d: "\<bar>int 1 - qr\<bar> + \<bar>int 1 - qc\<bar> \<le> 8"
      and none: "\<forall>sr sc. \<bar>qr - sr\<bar> + \<bar>qc - sc\<bar> \<le> 8 \<longrightarrow>
                   \<not> padded_present 26 26 (block_tile 26 24 ! 0) sr sc"
    show False
    proof (cases "qr \<le> 8")
      case True
      have "reflect_index 26 qc < 26" by (simp add: reflect_index_less)
      then have "present (block_tile 26 24 ! 0) (reflect_index 26 0) (reflect_index 26 qc)"
        using reflect_index_inside [of 0 26] by (simp add: present_block_tile)
      moreover have "- 8 \<le> qc" and "qc < 34"
        using d by linarith+
      ultimately have "padded_present 26 26 (block_tile 26 24 ! 0) 0 qc"
        by (simp add: padded_present_def)
      moreover have "\<bar>qr - 0\<bar> + \<bar>qc - qc\<bar> \<le> 8"
        using d True by auto
      ultimately show False using none by blast
    next
      case False
      with d have qr: "qr = 9" and qc: "qc = 1" by linarith+
      have "present (block_tile 26 24 ! 0) (reflect_index 26 9) (reflect_index 26 0)"
        using reflect_index_inside [of 0 26] reflect_index_inside [of 9 26]
        by (simp add: present_block_tile)
      then have "padded_present 26 26 (block_tile 26 24 ! 0) 9 0"
        by (simp add: padded_present_def)
      moreover have "\<bar>qr - 9\<bar> + \<bar>qc - 0\<bar> \<le> 8"
        by (simp add: qr qc)
      ultimately show False using none by blast
    qed
  qed
  then have second: "\<not> flagged (block_tile 26 24) 0 1 1"
    by (simp add: flagged_def m')
  show ?thesis
    using first second by (simp add: present_block_tile)
qed

end
